theory Spec2Isabelle
  imports Main "HOL-Library.Multiset"
begin

section \<open>Data model\<close>

text \<open>
  The three tables of the tracker as the route handlers read and write them through the
  Prisma client. Identifiers are strings, timestamps are integers (milliseconds since the
  epoch, as a JavaScript \<open>Date\<close> holds them), a nullable column is an \<open>option\<close>.
  The schema file itself is not part of the sources; the columns are the ones the
  handlers name.
\<close>

datatype priority = LOW | MEDIUM | HIGH

record task =
  task_id :: string
  title :: string
  description :: "string option"
  dueDate :: "int option"
  priority :: priority
  isComplete :: bool
  isDeleted :: bool
  deletedAt :: "int option"
  projectId :: "string option"
  userId :: string
  createdAt :: int

record project =
  project_id :: string
  project_name :: string
  color :: string
  project_userId :: string
  project_createdAt :: int

record user =
  user_id :: string
  email :: string
  password :: "string option"
  googleId :: "string option"
  user_name :: string
  avatar :: "string option"
  user_createdAt :: int

record store =
  users :: "user list"
  projects :: "project list"
  tasks :: "task list"

text \<open>
  What a handler answers when it does not answer with a payload. Each constructor stands
  for one status and message of the source:
  \<^item> \<open>ValidationError\<close>: 400 with the validator's error array;
  \<^item> \<open>InvalidReference\<close>: 400 \<open>Invalid project ID\<close>;
  \<^item> \<open>UserExists\<close>: 400 \<open>User already exists with this email\<close>;
  \<^item> \<open>OAuthAccount\<close>: 400 \<open>Cannot change password for OAuth accounts\<close>;
  \<^item> \<open>WrongPassword\<close>: 400 \<open>Current password is incorrect\<close>;
  \<^item> \<open>InvalidCredentials\<close>: 401 \<open>Invalid credentials\<close>;
  \<^item> \<open>PasswordLoginUnavailable\<close>: 401 \<open>Please use Google login\<close>;
  \<^item> \<open>NotFound\<close>: 404 \<open>Task not found\<close>, \<open>Project not found\<close>, \<open>User not found\<close>;
  \<^item> \<open>NotInTrash\<close>: 404 \<open>Task not found in trash\<close>;
  \<^item> \<open>StorageError\<close>: the \<open>catch\<close> branch, 500, taken when a Prisma call throws.
\<close>

datatype error =
    ValidationError
  | InvalidReference
  | UserExists
  | OAuthAccount
  | WrongPassword
  | InvalidCredentials
  | PasswordLoginUnavailable
  | NotFound
  | NotInTrash
  | StorageError

text \<open>
  The clock and the identifier generator are inputs of a request: \<open>now\<close> is what
  \<open>new Date()\<close> returns, \<open>tz\<close> the offset of the server's local zone from UTC in
  milliseconds (a fixed offset: daylight-saving shifts are not modelled), \<open>fresh_id\<close>
  the identifier the database default generates for a created row.
\<close>

record env =
  now :: int
  tz :: int
  fresh_id :: string

section \<open>Request validation and string helpers\<close>

definition is_space :: "char \<Rightarrow> bool" where
  "is_space c = (let n = (of_char c :: nat) in n = 32 \<or> (9 \<le> n \<and> n \<le> 13))"

text \<open>\<open>String.prototype.trim\<close>, on ASCII white space.\<close>

definition trim :: "string \<Rightarrow> string" where
  "trim s = rev (dropWhile is_space (rev (dropWhile is_space s)))"

definition lower_char :: "char \<Rightarrow> char" where
  "lower_char c =
     (let n = (of_char c :: nat) in if 65 \<le> n \<and> n \<le> 90 then char_of (n + 32) else c)"

text \<open>\<open>String.prototype.toLowerCase\<close>, on ASCII letters.\<close>

definition toLowerCase :: "string \<Rightarrow> string" where
  "toLowerCase s = map lower_char s"

definition is_hex :: "char \<Rightarrow> bool" where
  "is_hex c =
     (let n = (of_char c :: nat)
      in (48 \<le> n \<and> n \<le> 57) \<or> (65 \<le> n \<and> n \<le> 70) \<or> (97 \<le> n \<and> n \<le> 102))"

text \<open>
  The validator's \<open>isUUID()\<close> with no version: five groups of 8, 4, 4, 4 and 12
  hexadecimal digits joined by hyphens. A release of the library that also checks the
  version and variant digits accepts fewer strings.
\<close>

fun hex_groups :: "nat list \<Rightarrow> string \<Rightarrow> bool" where
  "hex_groups [] s = False"
| "hex_groups [n] s = (length s = n \<and> list_all is_hex s)"
| "hex_groups (n # m # ns) s =
     (length (take n s) = n \<and> list_all is_hex (take n s) \<and>
      (case drop n s of [] \<Rightarrow> False
       | c # r \<Rightarrow> c = CHR ''-'' \<and> hex_groups (m # ns) r))"

definition isUUID :: "string \<Rightarrow> bool" where
  "isUUID s = hex_groups [8, 4, 4, 4, 12] s"

text \<open>JavaScript truthiness of an optional string: \<open>undefined\<close> and \<open>''\<close> are falsy.\<close>

fun truthy :: "string option \<Rightarrow> bool" where
  "truthy None = False"
| "truthy (Some s) = (s \<noteq> [])"

section \<open>Prisma primitives on the task table\<close>

record project_summary =
  ps_id :: string
  ps_name :: string
  ps_color :: string

text \<open>
  A task as the handlers return it: the row with
  \<open>include: { project: { select: { id, name, color } } }\<close>.
\<close>

type_synonym task_view = "task \<times> project_summary option"

definition summary :: "project \<Rightarrow> project_summary" where
  "summary p = \<lparr>ps_id = project_id p, ps_name = project_name p, ps_color = color p\<rparr>"

definition include_project :: "store \<Rightarrow> task \<Rightarrow> task_view" where
  "include_project s t =
     (t, case projectId t of
           None \<Rightarrow> None
         | Some p \<Rightarrow> map_option summary (find (\<lambda>pr. project_id pr = p) (projects s)))"

text \<open>\<open>prisma.task.findFirst({ where })\<close>: the first row the filter accepts, or null.\<close>

definition task_findFirst :: "(task \<Rightarrow> bool) \<Rightarrow> store \<Rightarrow> task option" where
  "task_findFirst P s = find P (tasks s)"

text \<open>
  \<open>prisma.task.update({ where: { id }, data })\<close>: rewrites the row with that id and
  returns it; throws (here \<open>None\<close>) when no row has the id.
\<close>

definition task_update :: "string \<Rightarrow> (task \<Rightarrow> task) \<Rightarrow> store \<Rightarrow> (task \<times> store) option" where
  "task_update i f s =
     (case find (\<lambda>t. task_id t = i) (tasks s) of
        None \<Rightarrow> None
      | Some t \<Rightarrow>
          Some (f t, s\<lparr>tasks := map (\<lambda>x. if task_id x = i then f x else x) (tasks s)\<rparr>))"

text \<open>\<open>prisma.task.delete({ where: { id } })\<close>: removes the row; throws when there is none.\<close>

definition task_delete :: "string \<Rightarrow> store \<Rightarrow> store option" where
  "task_delete i s =
     (case find (\<lambda>t. task_id t = i) (tasks s) of
        None \<Rightarrow> None
      | Some t \<Rightarrow> Some (s\<lparr>tasks := filter (\<lambda>x. task_id x \<noteq> i) (tasks s)\<rparr>))"

section \<open>Task routes: single-task lifecycle\<close>

text \<open>
  Every handler takes the store, the authenticated user's id (\<open>req.user.id\<close>) and the
  request, and returns the response with the store after the request. The human-readable
  \<open>message\<close> of a successful response is not part of the model.
\<close>

text \<open>\<open>GET /:id\<close>\<close>

definition get_task :: "store \<Rightarrow> string \<Rightarrow> string \<Rightarrow> (error + task_view) \<times> store" where
  "get_task s uid i =
     (case task_findFirst (\<lambda>t. task_id t = i \<and> userId t = uid) s of
        None \<Rightarrow> (Inl NotFound, s)
      | Some t \<Rightarrow> (Inr (include_project s t), s))"

text \<open>\<open>PATCH /:id/toggle\<close>\<close>

definition toggle_task :: "store \<Rightarrow> string \<Rightarrow> string \<Rightarrow> (error + task_view) \<times> store" where
  "toggle_task s uid i =
     (case task_findFirst (\<lambda>t. task_id t = i \<and> userId t = uid) s of
        None \<Rightarrow> (Inl NotFound, s)
      | Some t \<Rightarrow>
          (case task_update i (\<lambda>x. x\<lparr>isComplete := \<not> isComplete t\<rparr>) s of
             None \<Rightarrow> (Inl StorageError, s)
           | Some (t', s') \<Rightarrow> (Inr (include_project s' t'), s')))"

text \<open>\<open>DELETE /:id\<close> (soft delete)\<close>

definition soft_delete_task :: "env \<Rightarrow> store \<Rightarrow> string \<Rightarrow> string \<Rightarrow> (error + unit) \<times> store" where
  "soft_delete_task e s uid i =
     (case task_findFirst (\<lambda>t. task_id t = i \<and> userId t = uid) s of
        None \<Rightarrow> (Inl NotFound, s)
      | Some t \<Rightarrow>
          (case task_update i (\<lambda>x. x\<lparr>isDeleted := True, deletedAt := Some (now e)\<rparr>) s of
             None \<Rightarrow> (Inl StorageError, s)
           | Some (t', s') \<Rightarrow> (Inr (), s')))"

text \<open>\<open>PATCH /:id/restore\<close>\<close>

definition restore_task :: "store \<Rightarrow> string \<Rightarrow> string \<Rightarrow> (error + task_view) \<times> store" where
  "restore_task s uid i =
     (case task_findFirst (\<lambda>t. task_id t = i \<and> userId t = uid \<and> isDeleted t = True) s of
        None \<Rightarrow> (Inl NotInTrash, s)
      | Some t \<Rightarrow>
          (case task_update i (\<lambda>x. x\<lparr>isDeleted := False, deletedAt := None\<rparr>) s of
             None \<Rightarrow> (Inl StorageError, s)
           | Some (t', s') \<Rightarrow> (Inr (include_project s' t'), s')))"

text \<open>\<open>DELETE /:id/permanent\<close>\<close>

definition purge_task :: "store \<Rightarrow> string \<Rightarrow> string \<Rightarrow> (error + unit) \<times> store" where
  "purge_task s uid i =
     (case task_findFirst (\<lambda>t. task_id t = i \<and> userId t = uid \<and> isDeleted t = True) s of
        None \<Rightarrow> (Inl NotInTrash, s)
      | Some t \<Rightarrow>
          (case task_delete i s of
             None \<Rightarrow> (Inl StorageError, s)
           | Some s' \<Rightarrow> (Inr (), s')))"

section \<open>Task routes: the filtered list\<close>

datatype view_name = Today | Upcoming | Completed | Trash

datatype status_name = All | Complete | Incomplete

text \<open>
  The query string after validation: \<open>None\<close> is an absent parameter (\<open>undefined\<close>).
  The \<open>isIn\<close> validators make every other value of \<open>view\<close>, \<open>status\<close> and
  \<open>priority\<close> a 400, so the enumerations are the types of the fields.
\<close>

record criteria =
  c_status :: "status_name option"
  c_priority :: "priority option"
  c_projectId :: "string option"
  c_search :: "string option"
  c_view :: "view_name option"

text \<open>The conditions that occur inside the \<open>AND\<close> and \<open>OR\<close> arrays of the filter.\<close>

datatype cond =
    IsDeletedIs bool
  | DueDateRange "int option" "int option"
  | TitleContains string
  | DescriptionContains string

text \<open>
  The \<open>where\<close> object the handler builds. A key that was never assigned is \<open>None\<close>;
  assigning a key again replaces its value, as assignment to an object property does.
\<close>

record task_where =
  w_userId :: string
  w_AND :: "cond list option"
  w_isComplete :: "bool option"
  w_isDeleted :: "bool option"
  w_priority :: "priority option"
  w_projectId :: "string option"
  w_OR :: "cond list option"

definition startOfDay :: "env \<Rightarrow> int" where
  "startOfDay e = now e - ((now e + tz e) mod 86400000)"

definition build_where :: "env \<Rightarrow> string \<Rightarrow> criteria \<Rightarrow> task_where" where
  "build_where e uid c =
     (let where0 = \<lparr>w_userId = uid, w_AND = None, w_isComplete = None, w_isDeleted = None,
                     w_priority = None, w_projectId = None, w_OR = None\<rparr>;
          today = startOfDay e;
          tomorrow = today + 86400000;
          where1 =
            (case c_view c of
               Some Today \<Rightarrow>
                 where0\<lparr>w_AND := Some [IsDeletedIs False, DueDateRange (Some today) (Some tomorrow)]\<rparr>
             | Some Upcoming \<Rightarrow>
                 where0\<lparr>w_AND := Some [IsDeletedIs False, DueDateRange (Some today) None]\<rparr>
             | Some Completed \<Rightarrow>
                 where0\<lparr>w_isComplete := Some True, w_isDeleted := Some False\<rparr>
             | Some Trash \<Rightarrow> where0\<lparr>w_isDeleted := Some True\<rparr>
             | None \<Rightarrow> where0\<lparr>w_isDeleted := Some False\<rparr>);
          where2 =
            (case c_status c of
               Some Complete \<Rightarrow> where1\<lparr>w_isComplete := Some True\<rparr>
             | Some Incomplete \<Rightarrow> where1\<lparr>w_isComplete := Some False\<rparr>
             | _ \<Rightarrow> where1);
          where3 =
            (case c_priority c of
               Some p \<Rightarrow> where2\<lparr>w_priority := Some p\<rparr>
             | None \<Rightarrow> where2);
          where4 =
            (if truthy (c_projectId c) then where3\<lparr>w_projectId := c_projectId c\<rparr> else where3);
          where5 =
            (case c_search c of
               Some q \<Rightarrow>
                 if q \<noteq> [] then where4\<lparr>w_OR := Some [TitleContains q, DescriptionContains q]\<rparr>
                 else where4
             | None \<Rightarrow> where4)
      in where5)"

text \<open>
  \<open>contains\<close> with \<open>mode: 'insensitive'\<close>: a substring test that ignores letter case.
  Characters that the database's pattern match may read as wildcards are taken
  literally here.
\<close>

fun is_infix :: "string \<Rightarrow> string \<Rightarrow> bool" where
  "is_infix q [] = (q = [])"
| "is_infix q (c # cs) = (take (length q) (c # cs) = q \<or> is_infix q cs)"

definition contains_insensitive :: "string \<Rightarrow> string \<Rightarrow> bool" where
  "contains_insensitive q s = is_infix (toLowerCase q) (toLowerCase s)"

text \<open>A comparison with a null column is never true.\<close>

fun holds :: "cond \<Rightarrow> task \<Rightarrow> bool" where
  "holds (IsDeletedIs b) t = (isDeleted t = b)"
| "holds (DueDateRange lo hi) t =
     (case dueDate t of
        None \<Rightarrow> False
      | Some d \<Rightarrow>
          (case lo of None \<Rightarrow> True | Some l \<Rightarrow> l \<le> d) \<and>
          (case hi of None \<Rightarrow> True | Some h \<Rightarrow> d < h))"
| "holds (TitleContains q) t = contains_insensitive q (title t)"
| "holds (DescriptionContains q) t =
     (case description t of None \<Rightarrow> False | Some d \<Rightarrow> contains_insensitive q d)"

text \<open>
  How Prisma reads the object: every key that is present must hold, every member of
  \<open>AND\<close> must hold, some member of \<open>OR\<close> must hold.
\<close>

definition matches :: "task_where \<Rightarrow> task \<Rightarrow> bool" where
  "matches w t =
     (userId t = w_userId w \<and>
      (case w_AND w of None \<Rightarrow> True | Some cs \<Rightarrow> list_all (\<lambda>c. holds c t) cs) \<and>
      (case w_isComplete w of None \<Rightarrow> True | Some b \<Rightarrow> isComplete t = b) \<and>
      (case w_isDeleted w of None \<Rightarrow> True | Some b \<Rightarrow> isDeleted t = b) \<and>
      (case w_priority w of None \<Rightarrow> True | Some p \<Rightarrow> priority t = p) \<and>
      (case w_projectId w of None \<Rightarrow> True | Some p \<Rightarrow> projectId t = Some p) \<and>
      (case w_OR w of None \<Rightarrow> True | Some cs \<Rightarrow> list_ex (\<lambda>c. holds c t) cs))"

text \<open>
  Modelled from the spec: the schema (the enumeration's declaration and the data source)
  is not among the sources, and it decides how the database compares two priorities and
  where it puts a null due date. The spec orders the priorities LOW, MEDIUM, HIGH and
  sorts a task with no due date after every dated task.
\<close>

fun priority_rank :: "priority \<Rightarrow> nat" where
  "priority_rank LOW = 0"
| "priority_rank MEDIUM = 1"
| "priority_rank HIGH = 2"

fun dueDate_le :: "int option \<Rightarrow> int option \<Rightarrow> bool" where
  "dueDate_le (Some a) (Some b) = (a \<le> b)"
| "dueDate_le (Some a) None = True"
| "dueDate_le None (Some b) = False"
| "dueDate_le None None = True"

text \<open>
  \<open>orderBy: [{ dueDate: 'asc' }, { priority: 'desc' }, { createdAt: 'desc' }]\<close>:
  \<open>order_le a b\<close> says that \<open>a\<close> may stand before \<open>b\<close>.
\<close>

definition order_le :: "task \<Rightarrow> task \<Rightarrow> bool" where
  "order_le a b =
     (if dueDate a \<noteq> dueDate b then dueDate_le (dueDate a) (dueDate b)
      else if priority a \<noteq> priority b then priority_rank (priority b) < priority_rank (priority a)
      else createdAt b \<le> createdAt a)"

text \<open>
  The database's sort, as a stable insertion sort. The query has no unique last key, so
  the database is free in the order of rows that agree on all three keys; in the model
  such rows keep the order of the table, and the order of the list \<open>tasks\<close> stands
  for whatever order the database yields them in.
\<close>

fun insert_ordered :: "task \<Rightarrow> task list \<Rightarrow> task list" where
  "insert_ordered x [] = [x]"
| "insert_ordered x (y # ys) = (if order_le x y then x # y # ys else y # insert_ordered x ys)"

fun orderBy :: "task list \<Rightarrow> task list" where
  "orderBy [] = []"
| "orderBy (x # xs) = insert_ordered x (orderBy xs)"

definition task_findMany :: "task_where \<Rightarrow> store \<Rightarrow> task list" where
  "task_findMany w s = orderBy (filter (matches w) (tasks s))"

text \<open>
  \<open>GET /\<close>. The validators run first: \<open>projectId\<close> must be a UUID when present, and
  \<open>search\<close> is trimmed.
\<close>

definition get_tasks :: "env \<Rightarrow> store \<Rightarrow> string \<Rightarrow> criteria \<Rightarrow> (error + task_view list) \<times> store" where
  "get_tasks e s uid c =
     (if (case c_projectId c of None \<Rightarrow> False | Some p \<Rightarrow> \<not> isUUID p) then (Inl ValidationError, s)
      else
        let c' = c\<lparr>c_search := map_option trim (c_search c)\<rparr>;
            wh = build_where e uid c'
        in (Inr (map (include_project s) (task_findMany wh s)), s))"

section \<open>Task routes: create and update\<close>

text \<open>
  The JSON body of \<open>POST /\<close> and \<open>PUT /:id\<close>; \<open>None\<close> is a field that is
  \<open>undefined\<close>.
\<close>

record task_body =
  b_title :: "string option"
  b_description :: "string option"
  b_dueDate :: "int option"
  b_priority :: "priority option"
  b_isComplete :: "bool option"
  b_projectId :: "string option"

text \<open>\<open>prisma.project.findFirst({ where })\<close>\<close>

definition project_findFirst :: "(project \<Rightarrow> bool) \<Rightarrow> store \<Rightarrow> project option" where
  "project_findFirst P s = find P (projects s)"

text \<open>
  \<open>prisma.task.create({ data })\<close>: appends the row; throws when the primary key is
  taken.
\<close>

definition task_create :: "task \<Rightarrow> store \<Rightarrow> (task \<times> store) option" where
  "task_create t s =
     (if task_id t \<in> set (map task_id (tasks s)) then None
      else Some (t, s\<lparr>tasks := tasks s @ [t]\<rparr>))"

text \<open>
  \<open>POST /\<close>. The identifier and \<open>createdAt\<close> are the database's defaults, taken
  from the environment. Modelled from the spec: the other column defaults of the absent
  schema, completion flag false, soft-delete flag false, no deletion timestamp.
\<close>

definition post_task :: "env \<Rightarrow> store \<Rightarrow> string \<Rightarrow> task_body \<Rightarrow> (error + task_view) \<times> store" where
  "post_task e s uid b =
     (if \<not> truthy (b_title b) \<or>
         (case b_projectId b of None \<Rightarrow> False | Some p \<Rightarrow> \<not> isUUID p)
      then (Inl ValidationError, s)
      else
        let ttl = trim (the (b_title b));
            descr = map_option trim (b_description b);
            pid = b_projectId b
        in if truthy pid \<and>
              project_findFirst (\<lambda>p. Some (project_id p) = pid \<and> project_userId p = uid) s = None
           then (Inl InvalidReference, s)
           else
             (case task_create
                     \<lparr>task_id = fresh_id e, title = trim ttl, description = map_option trim descr,
                      dueDate = b_dueDate b,
                      priority = (case b_priority b of None \<Rightarrow> MEDIUM | Some p \<Rightarrow> p),
                      isComplete = False, isDeleted = False, deletedAt = None,
                      projectId = pid, userId = uid, createdAt = now e\<rparr> s of
                None \<Rightarrow> (Inl StorageError, s)
              | Some (t, s') \<Rightarrow> (Inr (include_project s' t), s')))"

text \<open>The \<open>updateData\<close> object of \<open>PUT /:id\<close>: only the fields that are present are written.\<close>

definition updateData :: "task_body \<Rightarrow> task \<Rightarrow> task" where
  "updateData b t =
     (let t1 = (case b_title b of None \<Rightarrow> t | Some x \<Rightarrow> t\<lparr>title := trim x\<rparr>);
          t2 = (case b_description b of None \<Rightarrow> t1 | Some x \<Rightarrow> t1\<lparr>description := Some (trim x)\<rparr>);
          t3 = (case b_dueDate b of None \<Rightarrow> t2 | Some x \<Rightarrow> t2\<lparr>dueDate := Some x\<rparr>);
          t4 = (case b_priority b of None \<Rightarrow> t3 | Some x \<Rightarrow> t3\<lparr>priority := x\<rparr>);
          t5 = (case b_isComplete b of None \<Rightarrow> t4 | Some x \<Rightarrow> t4\<lparr>isComplete := x\<rparr>);
          t6 = (case b_projectId b of None \<Rightarrow> t5 | Some x \<Rightarrow> t5\<lparr>projectId := Some x\<rparr>)
      in t6)"

text \<open>\<open>PUT /:id\<close>\<close>

definition put_task :: "store \<Rightarrow> string \<Rightarrow> string \<Rightarrow> task_body \<Rightarrow> (error + task_view) \<times> store" where
  "put_task s uid i b =
     (if (case b_title b of None \<Rightarrow> False | Some x \<Rightarrow> x = []) \<or>
         (case b_projectId b of None \<Rightarrow> False | Some p \<Rightarrow> \<not> isUUID p)
      then (Inl ValidationError, s)
      else
        let b' = b\<lparr>b_title := map_option trim (b_title b),
                   b_description := map_option trim (b_description b)\<rparr>
        in case task_findFirst (\<lambda>t. task_id t = i \<and> userId t = uid) s of
             None \<Rightarrow> (Inl NotFound, s)
           | Some existingTask \<Rightarrow>
               if truthy (b_projectId b') \<and>
                  project_findFirst
                    (\<lambda>p. Some (project_id p) = b_projectId b' \<and> project_userId p = uid) s = None
               then (Inl InvalidReference, s)
               else
                 (case task_update i (updateData b') s of
                    None \<Rightarrow> (Inl StorageError, s)
                  | Some (t, s') \<Rightarrow> (Inr (include_project s' t), s')))"

section \<open>Project routes\<close>

record project_body =
  pb_name :: "string option"
  pb_color :: "string option"

text \<open>The colour pattern \<open>^#([A-Fa-f0-9]{6}|[A-Fa-f0-9]{3})$\<close>.\<close>

definition is_color :: "string \<Rightarrow> bool" where
  "is_color s =
     (case s of
        [] \<Rightarrow> False
      | c # r \<Rightarrow> c = CHR ''#'' \<and> (length r = 6 \<or> length r = 3) \<and> list_all is_hex r)"

text \<open>The \<open>_count\<close> of a project: its tasks that are not in the trash.\<close>

definition count_tasks :: "store \<Rightarrow> project \<Rightarrow> nat" where
  "count_tasks s p =
     length (filter (\<lambda>t. projectId t = Some (project_id p) \<and> isDeleted t = False) (tasks s))"

text \<open>\<open>GET /\<close>: the caller's projects, newest first.\<close>

definition get_projects :: "store \<Rightarrow> string \<Rightarrow> (error + (project \<times> nat) list) \<times> store" where
  "get_projects s uid =
     (Inr (map (\<lambda>p. (p, count_tasks s p))
             (sort_key (\<lambda>p. - project_createdAt p)
                (filter (\<lambda>p. project_userId p = uid) (projects s)))), s)"

text \<open>\<open>GET /:id\<close>: the project with its tasks that are not in the trash, ordered as the task list is.\<close>

definition get_project :: "store \<Rightarrow> string \<Rightarrow> string \<Rightarrow> (error + project \<times> task list) \<times> store" where
  "get_project s uid i =
     (case project_findFirst (\<lambda>p. project_id p = i \<and> project_userId p = uid) s of
        None \<Rightarrow> (Inl NotFound, s)
      | Some p \<Rightarrow>
          (Inr (p, orderBy (filter (\<lambda>t. projectId t = Some (project_id p) \<and> isDeleted t = False)
                              (tasks s))), s))"

definition project_create :: "project \<Rightarrow> store \<Rightarrow> (project \<times> store) option" where
  "project_create p s =
     (if project_id p \<in> set (map project_id (projects s)) then None
      else Some (p, s\<lparr>projects := projects s @ [p]\<rparr>))"

text \<open>\<open>POST /\<close>\<close>

definition post_project :: "env \<Rightarrow> store \<Rightarrow> string \<Rightarrow> project_body \<Rightarrow> (error + project \<times> nat) \<times> store" where
  "post_project e s uid b =
     (if \<not> truthy (pb_name b) \<or>
         (case pb_color b of None \<Rightarrow> False | Some c \<Rightarrow> \<not> is_color c)
      then (Inl ValidationError, s)
      else
        (case project_create
                \<lparr>project_id = fresh_id e, project_name = trim (trim (the (pb_name b))),
                 color = (if truthy (pb_color b) then the (pb_color b) else ''#3B82F6''),
                 project_userId = uid, project_createdAt = now e\<rparr> s of
           None \<Rightarrow> (Inl StorageError, s)
         | Some (p, s') \<Rightarrow> (Inr (p, count_tasks s' p), s')))"

definition project_update :: "string \<Rightarrow> (project \<Rightarrow> project) \<Rightarrow> store \<Rightarrow> (project \<times> store) option" where
  "project_update i f s =
     (case find (\<lambda>p. project_id p = i) (projects s) of
        None \<Rightarrow> None
      | Some p \<Rightarrow>
          Some (f p, s\<lparr>projects := map (\<lambda>x. if project_id x = i then f x else x) (projects s)\<rparr>))"

text \<open>\<open>PUT /:id\<close>\<close>

definition put_project :: "store \<Rightarrow> string \<Rightarrow> string \<Rightarrow> project_body \<Rightarrow> (error + project \<times> nat) \<times> store" where
  "put_project s uid i b =
     (if (case pb_name b of None \<Rightarrow> False | Some x \<Rightarrow> x = []) \<or>
         (case pb_color b of None \<Rightarrow> False | Some c \<Rightarrow> \<not> is_color c)
      then (Inl ValidationError, s)
      else
        case project_findFirst (\<lambda>p. project_id p = i \<and> project_userId p = uid) s of
          None \<Rightarrow> (Inl NotFound, s)
        | Some existingProject \<Rightarrow>
            (case project_update i
                    (\<lambda>p. let p1 = (case pb_name b of None \<Rightarrow> p
                                    | Some x \<Rightarrow> p\<lparr>project_name := trim (trim x)\<rparr>)
                          in (case pb_color b of None \<Rightarrow> p1 | Some c \<Rightarrow> p1\<lparr>color := c\<rparr>)) s of
               None \<Rightarrow> (Inl StorageError, s)
             | Some (p, s') \<Rightarrow> (Inr (p, count_tasks s' p), s')))"

text \<open>\<open>prisma.task.updateMany({ where, data })\<close>: rewrites every row the filter accepts.\<close>

definition task_updateMany :: "(task \<Rightarrow> bool) \<Rightarrow> (task \<Rightarrow> task) \<Rightarrow> store \<Rightarrow> store option" where
  "task_updateMany P f s = Some (s\<lparr>tasks := map (\<lambda>t. if P t then f t else t) (tasks s)\<rparr>)"

definition project_delete :: "string \<Rightarrow> store \<Rightarrow> store option" where
  "project_delete i s =
     (case find (\<lambda>p. project_id p = i) (projects s) of
        None \<Rightarrow> None
      | Some p \<Rightarrow> Some (s\<lparr>projects := filter (\<lambda>x. project_id x \<noteq> i) (projects s)\<rparr>))"

text \<open>
  \<open>prisma.$transaction([...])\<close>: the operations run in order on the store; when one
  throws, none of them takes effect.
\<close>

fun transaction :: "(store \<Rightarrow> store option) list \<Rightarrow> store \<Rightarrow> store option" where
  "transaction [] s = Some s"
| "transaction (f # fs) s = (case f s of None \<Rightarrow> None | Some s' \<Rightarrow> transaction fs s')"

text \<open>\<open>DELETE /:id\<close>\<close>

definition delete_project :: "store \<Rightarrow> string \<Rightarrow> string \<Rightarrow> (error + unit) \<times> store" where
  "delete_project s uid i =
     (case project_findFirst (\<lambda>p. project_id p = i \<and> project_userId p = uid) s of
        None \<Rightarrow> (Inl NotFound, s)
      | Some p \<Rightarrow>
          (case transaction
                  [task_updateMany (\<lambda>t. projectId t = Some i) (\<lambda>t. t\<lparr>projectId := None\<rparr>),
                   project_delete i] s of
             None \<Rightarrow> (Inl StorageError, s)
           | Some s' \<Rightarrow> (Inr (), s')))"

section \<open>Identity: registration, the passport strategies, the account routes\<close>

text \<open>The projection \<open>{ id, email, name, avatar }\<close> that the handlers select.\<close>

record public_user =
  pu_id :: string
  pu_email :: string
  pu_name :: string
  pu_avatar :: "string option"

definition public :: "user \<Rightarrow> public_user" where
  "public u = \<lparr>pu_id = user_id u, pu_email = email u, pu_name = user_name u, pu_avatar = avatar u\<rparr>"

text \<open>
  Modelled from the spec: the uniqueness constraints of the absent schema. The handlers
  call \<open>findUnique\<close> by \<open>id\<close>, by \<open>email\<close> and by \<open>googleId\<close>, which Prisma only
  offers for unique columns; a null \<open>googleId\<close> does not take part. A write that would
  break a constraint throws.
\<close>

definition user_constraints :: "user list \<Rightarrow> bool" where
  "user_constraints us =
     (distinct (map user_id us) \<and> distinct (map email us) \<and>
      distinct (List.map_filter googleId us))"

definition user_findUnique :: "(user \<Rightarrow> bool) \<Rightarrow> store \<Rightarrow> user option" where
  "user_findUnique P s = find P (users s)"

definition user_create :: "user \<Rightarrow> store \<Rightarrow> (user \<times> store) option" where
  "user_create u s =
     (let us' = users s @ [u]
      in if user_constraints us' then Some (u, s\<lparr>users := us'\<rparr>) else None)"

definition user_update :: "(user \<Rightarrow> bool) \<Rightarrow> (user \<Rightarrow> user) \<Rightarrow> store \<Rightarrow> (user \<times> store) option" where
  "user_update P f s =
     (case find P (users s) of
        None \<Rightarrow> None
      | Some u \<Rightarrow>
          let us' = map (\<lambda>x. if P x then f x else x) (users s)
          in if user_constraints us' then Some (f u, s\<lparr>users := us'\<rparr>) else None)"

text \<open>
  \<open>prisma.user.delete\<close>. The handler's comment says that the schema cascades the
  deletion to the user's projects and tasks.
\<close>

definition user_delete :: "string \<Rightarrow> store \<Rightarrow> store option" where
  "user_delete i s =
     (case find (\<lambda>u. user_id u = i) (users s) of
        None \<Rightarrow> None
      | Some u \<Rightarrow>
          Some \<lparr>users = filter (\<lambda>x. user_id x \<noteq> i) (users s),
                projects = filter (\<lambda>p. project_userId p \<noteq> i) (projects s),
                tasks = filter (\<lambda>t. userId t \<noteq> i) (tasks s)\<rparr>)"

text \<open>
  \<open>POST /register\<close>. The password hash function is a parameter (bcrypt with cost 12 is
  an opaque capability). The validators of the library are not modelled: \<open>em\<close> and
  \<open>nm\<close> are the address and the name as the validators hand them to the handler. The session token of the response is
  not part of the model.
\<close>

definition register :: "(string \<Rightarrow> string) \<Rightarrow> env \<Rightarrow> store \<Rightarrow> string \<Rightarrow> string \<Rightarrow> string option \<Rightarrow>
    (error + public_user) \<times> store" where
  "register hash e s em pw nm =
     (if length pw < 6 then (Inl ValidationError, s)
      else
        case user_findUnique (\<lambda>u. email u = toLowerCase em) s of
          Some existingUser \<Rightarrow> (Inl UserExists, s)
        | None \<Rightarrow>
            (case user_create
                    \<lparr>user_id = fresh_id e, email = toLowerCase em, password = Some (hash pw),
                     googleId = None,
                     user_name = (if truthy nm then the nm else takeWhile (\<lambda>c. c \<noteq> CHR ''@'') em),
                     avatar = None, user_createdAt = now e\<rparr> s of
               None \<Rightarrow> (Inl StorageError, s)
             | Some (u, s') \<Rightarrow> (Inr (public u), s')))"

text \<open>The JWT strategy: the payload's id must still resolve to a user.\<close>

definition jwt_strategy :: "store \<Rightarrow> string \<Rightarrow> public_user option" where
  "jwt_strategy s i = map_option public (user_findUnique (\<lambda>u. user_id u = i) s)"

text \<open>
  The local strategy. \<open>compare\<close> is \<open>bcrypt.compare\<close>; \<open>!user.password\<close> holds for a
  null and for an empty hash.
\<close>

definition local_strategy :: "(string \<Rightarrow> string \<Rightarrow> bool) \<Rightarrow> store \<Rightarrow> string \<Rightarrow> string \<Rightarrow> error + public_user" where
  "local_strategy compare s em pw =
     (case user_findUnique (\<lambda>u. email u = toLowerCase em) s of
        None \<Rightarrow> Inl InvalidCredentials
      | Some u \<Rightarrow>
          if \<not> truthy (password u) then Inl PasswordLoginUnavailable
          else if compare pw (the (password u))
          then Inr \<lparr>pu_id = user_id u, pu_email = email u, pu_name = user_name u, pu_avatar = avatar u\<rparr>
          else Inl InvalidCredentials)"

text \<open>
  The provider's profile as the Google strategy reads it: \<open>profile.id\<close>,
  \<open>profile.displayName\<close>, and the \<open>value\<close>s of the \<open>photos\<close> and \<open>emails\<close> arrays.
\<close>

record profile =
  profile_id :: string
  displayName :: string
  photos :: "string list"
  emails :: "string list"

text \<open>\<open>profile.photos[0]?.value\<close>: \<open>undefined\<close> when there is no photo.\<close>

definition first_photo :: "profile \<Rightarrow> string option" where
  "first_photo p = (case photos p of [] \<Rightarrow> None | x # _ \<Rightarrow> Some x)"

text \<open>
  In the \<open>data\<close> of an update Prisma leaves a column alone when its value is
  \<open>undefined\<close>.
\<close>

definition set_avatar :: "string option \<Rightarrow> user \<Rightarrow> user" where
  "set_avatar a u = (case a of None \<Rightarrow> u | Some x \<Rightarrow> u\<lparr>avatar := Some x\<rparr>)"

text \<open>
  The Google strategy's verify callback. \<open>profile.emails[0].value\<close> throws when the
  array is empty; every throw ends in \<open>done(error)\<close>, here \<open>StorageError\<close>.
\<close>

definition google_strategy :: "env \<Rightarrow> store \<Rightarrow> profile \<Rightarrow> (error + user) \<times> store" where
  "google_strategy e s p =
     (case user_findUnique (\<lambda>u. googleId u = Some (profile_id p)) s of
        Some u \<Rightarrow>
          (case emails p of
             [] \<Rightarrow> (Inl StorageError, s)
           | em # _ \<Rightarrow>
               (case user_update (\<lambda>x. googleId x = Some (profile_id p))
                       (\<lambda>x. set_avatar (first_photo p) (x\<lparr>user_name := displayName p, email := em\<rparr>)) s of
                  None \<Rightarrow> (Inl StorageError, s)
                | Some (u', s') \<Rightarrow> (Inr u', s')))
      | None \<Rightarrow>
          (case emails p of
             [] \<Rightarrow> (Inl StorageError, s)
           | em # _ \<Rightarrow>
               (case user_findUnique (\<lambda>u. email u = em) s of
                  Some existingUserWithEmail \<Rightarrow>
                    (case user_update (\<lambda>x. email x = em)
                            (\<lambda>x. set_avatar (first_photo p)
                                   (x\<lparr>googleId := Some (profile_id p), user_name := displayName p\<rparr>)) s of
                       None \<Rightarrow> (Inl StorageError, s)
                     | Some (u', s') \<Rightarrow> (Inr u', s'))
                | None \<Rightarrow>
                    (case user_create
                            \<lparr>user_id = fresh_id e, email = em, password = None,
                             googleId = Some (profile_id p), user_name = displayName p,
                             avatar = first_photo p, user_createdAt = now e\<rparr> s of
                       None \<Rightarrow> (Inl StorageError, s)
                     | Some (u', s') \<Rightarrow> (Inr u', s')))))"

text \<open>\<open>PUT /profile\<close> (the URL check of \<open>avatar\<close> is the library's and is not modelled).\<close>

definition put_profile :: "store \<Rightarrow> string \<Rightarrow> string option \<Rightarrow> string option \<Rightarrow> (error + public_user) \<times> store" where
  "put_profile s uid nm av =
     (if (case nm of None \<Rightarrow> False | Some x \<Rightarrow> trim x = []) then (Inl ValidationError, s)
      else
        case user_update (\<lambda>u. user_id u = uid)
               (\<lambda>u. set_avatar av (case nm of None \<Rightarrow> u | Some x \<Rightarrow> u\<lparr>user_name := trim x\<rparr>)) s of
          None \<Rightarrow> (Inl StorageError, s)
        | Some (u, s') \<Rightarrow> (Inr (public u), s'))"

text \<open>\<open>PUT /password\<close>\<close>

definition put_password :: "(string \<Rightarrow> string) \<Rightarrow> (string \<Rightarrow> string \<Rightarrow> bool) \<Rightarrow> store \<Rightarrow> string \<Rightarrow>
    string \<Rightarrow> string \<Rightarrow> (error + unit) \<times> store" where
  "put_password hash compare s uid currentPassword newPassword =
     (if length newPassword < 6 then (Inl ValidationError, s)
      else
        case user_findUnique (\<lambda>u. user_id u = uid) s of
          None \<Rightarrow> (Inl NotFound, s)
        | Some u \<Rightarrow>
            if \<not> truthy (password u) then (Inl OAuthAccount, s)
            else if \<not> compare currentPassword (the (password u)) then (Inl WrongPassword, s)
            else
              (case user_update (\<lambda>x. user_id x = uid) (\<lambda>x. x\<lparr>password := Some (hash newPassword)\<rparr>) s of
                 None \<Rightarrow> (Inl StorageError, s)
               | Some (u', s') \<Rightarrow> (Inr (), s')))"

text \<open>\<open>DELETE /account\<close>\<close>

definition delete_account :: "store \<Rightarrow> string \<Rightarrow> (error + unit) \<times> store" where
  "delete_account s uid =
     (case user_delete uid s of
        None \<Rightarrow> (Inl StorageError, s)
      | Some s' \<Rightarrow> (Inr (), s'))"

section \<open>Reachable states\<close>

text \<open>
  The stores that requests can produce from the empty database. Every route that writes
  has a rule; the caller, the request and the environment of a step are arbitrary, so
  the set over-approximates what authenticated callers can do.
\<close>

definition empty_store :: store where
  "empty_store = \<lparr>users = [], projects = [], tasks = []\<rparr>"

inductive reachable :: "store \<Rightarrow> bool" where
  init: "reachable empty_store"
| r_register: "reachable s \<Longrightarrow> reachable (snd (register hash e s em pw nm))"
| r_google: "reachable s \<Longrightarrow> reachable (snd (google_strategy e s p))"
| r_put_profile: "reachable s \<Longrightarrow> reachable (snd (put_profile s uid nm av))"
| r_put_password: "reachable s \<Longrightarrow> reachable (snd (put_password hash compare s uid cur new))"
| r_delete_account: "reachable s \<Longrightarrow> reachable (snd (delete_account s uid))"
| r_post_task: "reachable s \<Longrightarrow> reachable (snd (post_task e s uid b))"
| r_put_task: "reachable s \<Longrightarrow> reachable (snd (put_task s uid i b))"
| r_toggle_task: "reachable s \<Longrightarrow> reachable (snd (toggle_task s uid i))"
| r_soft_delete_task: "reachable s \<Longrightarrow> reachable (snd (soft_delete_task e s uid i))"
| r_restore_task: "reachable s \<Longrightarrow> reachable (snd (restore_task s uid i))"
| r_purge_task: "reachable s \<Longrightarrow> reachable (snd (purge_task s uid i))"
| r_post_project: "reachable s \<Longrightarrow> reachable (snd (post_project e s uid pb))"
| r_put_project: "reachable s \<Longrightarrow> reachable (snd (put_project s uid i pb))"
| r_delete_project: "reachable s \<Longrightarrow> reachable (snd (delete_project s uid i))"

text \<open>
  The invariants of the data model that the routes maintain: primary keys are unique, a
  task is flagged deleted exactly when it carries a deletion timestamp, and a task's
  project exists and belongs to the task's owner.
\<close>

definition no_dangling :: "store \<Rightarrow> bool" where
  "no_dangling s =
     list_all (\<lambda>t. case projectId t of
                      None \<Rightarrow> True
                    | Some p \<Rightarrow> list_ex (\<lambda>pr. project_id pr = p) (projects s)) (tasks s)"

definition project_owned :: "store \<Rightarrow> bool" where
  "project_owned s =
     list_all (\<lambda>t. case projectId t of
                      None \<Rightarrow> True
                    | Some p \<Rightarrow> list_ex (\<lambda>pr. project_id pr = p \<and> project_userId pr = userId t)
                                  (projects s)) (tasks s)"

definition trash_stamped :: "store \<Rightarrow> bool" where
  "trash_stamped s = list_all (\<lambda>t. isDeleted t = (deletedAt t \<noteq> None)) (tasks s)"

definition store_inv :: "store \<Rightarrow> bool" where
  "store_inv s =
     (distinct (map task_id (tasks s)) \<and> distinct (map project_id (projects s)) \<and>
      trash_stamped s \<and> project_owned s)"

section \<open>Example data\<close>

definition ex_env :: env where
  "ex_env = \<lparr>now = 1000, tz = 0, fresh_id = ''n1''\<rparr>"

definition ex_active :: task where
  "ex_active =
     \<lparr>task_id = ''t1'', title = ''Write report'', description = None, dueDate = None,
      priority = MEDIUM, isComplete = True, isDeleted = False, deletedAt = None,
      projectId = None, userId = ''alice'', createdAt = 10\<rparr>"

definition ex_trashed :: task where
  "ex_trashed =
     \<lparr>task_id = ''t2'', title = ''Buy milk'', description = None, dueDate = None,
      priority = LOW, isComplete = False, isDeleted = True, deletedAt = Some 500,
      projectId = None, userId = ''alice'', createdAt = 20\<rparr>"

definition ex_store :: store where
  "ex_store = \<lparr>users = [], projects = [], tasks = [ex_active, ex_trashed]\<rparr>"

definition ex_uuid :: string where
  "ex_uuid = ''11111111-2222-4333-8444-555555555555''"

definition ex_project :: project where
  "ex_project =
     \<lparr>project_id = ex_uuid, project_name = ''Work'', color = ''#3B82F6'',
      project_userId = ''alice'', project_createdAt = 1000\<rparr>"

definition ex_linked :: task where
  "ex_linked =
     \<lparr>task_id = ''t9'', title = ''Plan'', description = None, dueDate = None,
      priority = MEDIUM, isComplete = False, isDeleted = False, deletedAt = None,
      projectId = Some ex_uuid, userId = ''alice'', createdAt = 1000\<rparr>"

definition ex_linked_store :: store where
  "ex_linked_store = \<lparr>users = [], projects = [ex_project], tasks = [ex_linked]\<rparr>"

definition ex_pending :: task where
  "ex_pending =
     \<lparr>task_id = ''t3'', title = ''Call Bob'', description = None, dueDate = None,
      priority = HIGH, isComplete = False, isDeleted = False, deletedAt = None,
      projectId = None, userId = ''alice'', createdAt = 30\<rparr>"

definition ex_list_store :: store where
  "ex_list_store = \<lparr>users = [], projects = [], tasks = [ex_active, ex_trashed, ex_pending]\<rparr>"

definition ex_completed_incomplete :: criteria where
  "ex_completed_incomplete =
     \<lparr>c_status = Some Incomplete, c_priority = None, c_projectId = None, c_search = None,
      c_view = Some Completed\<rparr>"

definition ex_task_a :: task where
  "ex_task_a =
     \<lparr>task_id = ''a'', title = ''A'', description = None, dueDate = Some 1704240000000,
      priority = LOW, isComplete = False, isDeleted = False, deletedAt = None,
      projectId = None, userId = ''alice'', createdAt = 1\<rparr>"

definition ex_task_b :: task where
  "ex_task_b =
     \<lparr>task_id = ''b'', title = ''B'', description = None, dueDate = None,
      priority = HIGH, isComplete = False, isDeleted = False, deletedAt = None,
      projectId = None, userId = ''alice'', createdAt = 2\<rparr>"

definition ex_task_c :: task where
  "ex_task_c =
     \<lparr>task_id = ''c'', title = ''C'', description = None, dueDate = Some 1704067200000,
      priority = HIGH, isComplete = False, isDeleted = False, deletedAt = None,
      projectId = None, userId = ''alice'', createdAt = 3\<rparr>"

definition ex_task_d :: task where
  "ex_task_d =
     \<lparr>task_id = ''d'', title = ''D'', description = None, dueDate = Some 1704067200000,
      priority = LOW, isComplete = False, isDeleted = False, deletedAt = None,
      projectId = None, userId = ''alice'', createdAt = 4\<rparr>"

definition ex_task_e :: task where
  "ex_task_e =
     \<lparr>task_id = ''e'', title = ''E'', description = None, dueDate = Some 1704067200000,
      priority = HIGH, isComplete = False, isDeleted = False, deletedAt = None,
      projectId = None, userId = ''alice'', createdAt = 5\<rparr>"

definition ex_order_store :: store where
  "ex_order_store =
     \<lparr>users = [], projects = [], tasks = [ex_task_a, ex_task_b, ex_task_c, ex_task_d, ex_task_e]\<rparr>"

definition ex_order_store_shuffled :: store where
  "ex_order_store_shuffled =
     \<lparr>users = [], projects = [], tasks = [ex_task_e, ex_task_d, ex_task_c, ex_task_b, ex_task_a]\<rparr>"

definition ex_tie1 :: task where
  "ex_tie1 =
     \<lparr>task_id = ''x1'', title = ''First'', description = None, dueDate = Some 1704067200000,
      priority = MEDIUM, isComplete = False, isDeleted = False, deletedAt = None,
      projectId = None, userId = ''alice'', createdAt = 7\<rparr>"

definition ex_tie2 :: task where
  "ex_tie2 =
     \<lparr>task_id = ''x2'', title = ''Second'', description = None, dueDate = Some 1704067200000,
      priority = MEDIUM, isComplete = False, isDeleted = False, deletedAt = None,
      projectId = None, userId = ''alice'', createdAt = 7\<rparr>"

definition ex_tie_store :: store where
  "ex_tie_store = \<lparr>users = [], projects = [], tasks = [ex_tie1, ex_tie2]\<rparr>"

definition ex_tie_store_swapped :: store where
  "ex_tie_store_swapped = \<lparr>users = [], projects = [], tasks = [ex_tie2, ex_tie1]\<rparr>"

definition no_criteria :: criteria where
  "no_criteria =
     \<lparr>c_status = None, c_priority = None, c_projectId = None, c_search = None, c_view = None\<rparr>"

definition ex_local_user :: user where
  "ex_local_user =
     \<lparr>user_id = ''u1'', email = ''ann@example.com'', password = Some ''hash:secret1'',
      googleId = None, user_name = ''Ann'', avatar = None, user_createdAt = 5\<rparr>"

definition ex_oauth_user :: user where
  "ex_oauth_user =
     \<lparr>user_id = ''u2'', email = ''bob@example.com'', password = None,
      googleId = Some ''g-bob'', user_name = ''Bob'', avatar = Some ''http://img/bob.png'',
      user_createdAt = 6\<rparr>"

definition ex_user_store :: store where
  "ex_user_store = \<lparr>users = [ex_local_user, ex_oauth_user], projects = [], tasks = []\<rparr>"

definition ex_compare :: "string \<Rightarrow> string \<Rightarrow> bool" where
  "ex_compare pw h = (h = ''hash:'' @ pw)"

definition ex_profile_clash :: profile where
  "ex_profile_clash =
     \<lparr>profile_id = ''g-bob'', displayName = ''Bob'', photos = [''http://img/new.png''],
      emails = [''ann@example.com'']\<rparr>"

definition ex_profile_nophoto :: profile where
  "ex_profile_nophoto =
     \<lparr>profile_id = ''g-bob'', displayName = ''Robert'', photos = [],
      emails = [''bob@example.com'']\<rparr>"

definition ex_profile_bob :: profile where
  "ex_profile_bob =
     \<lparr>profile_id = ''g-bob'', displayName = ''Robert'', photos = [''http://img/new.png''],
      emails = [''rob@example.com'']\<rparr>"

definition ex_profile_ann :: profile where
  "ex_profile_ann =
     \<lparr>profile_id = ''g-ann'', displayName = ''Ann B'', photos = [''http://img/ann.png''],
      emails = [''ann@example.com'']\<rparr>"

definition ex_profile_eve :: profile where
  "ex_profile_eve =
     \<lparr>profile_id = ''g-eve'', displayName = ''Eve'', photos = [],
      emails = [''eve@example.com'']\<rparr>"

section \<open>Lookup and update under unique identifiers\<close>

lemma find_unique_task:
  assumes "distinct (map task_id ts)" and "t \<in> set ts" and "P t"
    and "\<And>x. P x \<Longrightarrow> task_id x = task_id t"
  shows "find P ts = Some t"
  using assms(1,2)
proof (induction ts)
  case Nil
  then show ?case by simp
next
  case (Cons a ts)
  show ?case
  proof (cases "a = t")
    case True
    with assms(3) show ?thesis by simp
  next
    case False
    with Cons.prems have t_in: "t \<in> set ts" and "task_id a \<notin> task_id ` set ts"
      by auto
    then have "task_id a \<noteq> task_id t" by force
    with assms(4) have "\<not> P a" by blast
    with Cons.IH Cons.prems(1) t_in show ?thesis by simp
  qed
qed

lemma map_replace_task:
  assumes "distinct (map task_id ts)" and "t \<in> set ts"
  shows "map (\<lambda>x. if task_id x = task_id t then f x else x) ts =
         map (\<lambda>x. if x = t then f t else x) ts"
proof (rule map_cong[OF refl])
  fix x assume "x \<in> set ts"
  with assms have "task_id x = task_id t \<longleftrightarrow> x = t"
    by (meson distinct_map inj_on_def)
  then show "(if task_id x = task_id t then f x else x) = (if x = t then f t else x)"
    by auto
qed

lemma filter_remove_task:
  assumes "distinct (map task_id ts)" and "t \<in> set ts"
  shows "filter (\<lambda>x. task_id x \<noteq> task_id t) ts = filter (\<lambda>x. x \<noteq> t) ts"
proof (rule filter_cong[OF refl])
  fix x assume "x \<in> set ts"
  with assms show "(task_id x \<noteq> task_id t) = (x \<noteq> t)"
    by (meson distinct_map inj_on_def)
qed

lemma map_replace_ids:
  assumes "task_id t' = task_id t"
  shows "map task_id (map (\<lambda>x. if x = t then t' else x) ts) = map task_id ts"
  using assms by (induction ts) auto

lemma map_replace_undo:
  assumes "t' \<notin> set ts"
  shows "map (\<lambda>x. if x = t' then t else x) (map (\<lambda>x. if x = t then t' else x) ts) = ts"
  using assms by (induction ts) auto

lemma task_update_owned:
  assumes "distinct (map task_id (tasks s))" and "t \<in> set (tasks s)"
  shows "task_update (task_id t) f s =
         Some (f t, s\<lparr>tasks := map (\<lambda>x. if x = t then f t else x) (tasks s)\<rparr>)"
proof -
  have "find (\<lambda>x. task_id x = task_id t) (tasks s) = Some t"
    using assms by (intro find_unique_task) auto
  then show ?thesis
    by (simp add: task_update_def map_replace_task[OF assms])
qed

lemma findFirst_owned:
  assumes "distinct (map task_id (tasks s))" and "t \<in> set (tasks s)"
  shows "task_findFirst (\<lambda>x. task_id x = task_id t \<and> userId x = userId t) s = Some t"
  unfolding task_findFirst_def using assms by (intro find_unique_task) auto

lemma findFirst_trashed:
  assumes "distinct (map task_id (tasks s))" and "t \<in> set (tasks s)"
  shows "task_findFirst (\<lambda>x. task_id x = task_id t \<and> userId x = userId t \<and> isDeleted x) s =
         (if isDeleted t then Some t else None)"
proof (cases "isDeleted t")
  case True
  then show ?thesis
    unfolding task_findFirst_def using assms by (simp add: find_unique_task)
next
  case False
  have "\<not> (task_id x = task_id t \<and> userId x = userId t \<and> isDeleted x)"
    if "x \<in> set (tasks s)" for x
    using that assms False by (metis distinct_map inj_on_def)
  then show ?thesis
    unfolding task_findFirst_def using False by (simp add: find_None_iff)
qed

lemma include_project_tasks_upd:
  "include_project (s\<lparr>tasks := ts\<rparr>) t = include_project s t"
  by (simp add: include_project_def split: option.splits)

section \<open>Properties of the task lifecycle\<close>

text \<open>
  C10. Soft delete does not look at the soft-delete flag. On a task that is already in
  the trash the operation succeeds, the flag stays set, and \<open>deletedAt\<close> is replaced by
  the current time; no other task and no other field changes.
\<close>

theorem soft_delete_trashed_restamps:
  assumes "distinct (map task_id (tasks s))" and "t \<in> set (tasks s)" and "isDeleted t"
  shows "soft_delete_task e s (userId t) (task_id t) =
           (Inr (), s\<lparr>tasks := map (\<lambda>x. if x = t then t\<lparr>deletedAt := Some (now e)\<rparr> else x) (tasks s)\<rparr>)
         \<and> isDeleted (t\<lparr>deletedAt := Some (now e)\<rparr>)"
proof -
  have "t\<lparr>isDeleted := True, deletedAt := Some (now e)\<rparr> = t\<lparr>deletedAt := Some (now e)\<rparr>"
    using assms(3) by simp
  then show ?thesis
    using assms
    by (simp add: soft_delete_task_def findFirst_owned task_update_owned)
qed

theorem soft_delete_trashed_restamps_witness:
  "distinct (map task_id (tasks ex_store)) \<and> ex_trashed \<in> set (tasks ex_store) \<and>
   isDeleted ex_trashed \<and> deletedAt ex_trashed = Some 500 \<and>
   soft_delete_task ex_env ex_store ''alice'' ''t2'' =
     (Inr (), ex_store\<lparr>tasks := [ex_active, ex_trashed\<lparr>deletedAt := Some 1000\<rparr>]\<rparr>)"
proof -
  have h: "distinct (map task_id (tasks ex_store))" "ex_trashed \<in> set (tasks ex_store)"
    "isDeleted ex_trashed"
    by (simp_all add: ex_store_def ex_active_def ex_trashed_def)
  show ?thesis
    using h soft_delete_trashed_restamps[OF h, of ex_env]
    by (simp add: ex_store_def ex_active_def ex_trashed_def ex_env_def)
qed

text \<open>
  C2 (as the code has it). Toggle does not look at the soft-delete flag either: for every
  task of the caller, in the trash or not, it flips \<open>isComplete\<close>, returns the
  updated task, and changes no other field and no other task.
\<close>

theorem toggle_flips_any_owned_task:
  assumes "distinct (map task_id (tasks s))" and "t \<in> set (tasks s)"
  shows "toggle_task s (userId t) (task_id t) =
           (Inr (include_project s (t\<lparr>isComplete := \<not> isComplete t\<rparr>)),
            s\<lparr>tasks := map (\<lambda>x. if x = t then t\<lparr>isComplete := \<not> isComplete t\<rparr> else x) (tasks s)\<rparr>)"
  using assms by (simp add: toggle_task_def findFirst_owned task_update_owned include_project_tasks_upd)

theorem toggle_flips_any_owned_task_witness:
  "distinct (map task_id (tasks ex_store)) \<and> ex_active \<in> set (tasks ex_store) \<and>
   toggle_task ex_store ''alice'' ''t1'' =
     (Inr (ex_active\<lparr>isComplete := False\<rparr>, None),
      ex_store\<lparr>tasks := [ex_active\<lparr>isComplete := False\<rparr>, ex_trashed]\<rparr>)"
proof -
  have h: "distinct (map task_id (tasks ex_store))" "ex_active \<in> set (tasks ex_store)"
    by (simp_all add: ex_store_def ex_active_def ex_trashed_def)
  show ?thesis
    using h toggle_flips_any_owned_task[OF h]
    by (simp add: ex_store_def ex_active_def ex_trashed_def include_project_def)
qed

text \<open>
  The claim that toggle is a no-op on a task in the trash fails: the trashed task of the
  example store is marked complete, and the store changes.
\<close>

theorem toggle_trashed_counterexample:
  "isDeleted ex_trashed \<and> ex_trashed \<in> set (tasks ex_store) \<and> \<not> isComplete ex_trashed \<and>
   toggle_task ex_store ''alice'' ''t2'' =
     (Inr (ex_trashed\<lparr>isComplete := True\<rparr>, None),
      ex_store\<lparr>tasks := [ex_active, ex_trashed\<lparr>isComplete := True\<rparr>]\<rparr>) \<and>
   snd (toggle_task ex_store ''alice'' ''t2'') \<noteq> ex_store"
  by (simp add: toggle_task_def task_findFirst_def task_update_def include_project_def
      ex_store_def ex_active_def ex_trashed_def)

text \<open>
  C3. Restore and permanent delete look the task up with \<open>isDeleted: true\<close>. For a task
  of the caller that is not in the trash both answer 404 \<open>Task not found in trash\<close> and
  leave the store as it was. For a task in the trash, permanent delete removes exactly
  that row, and fetching the id afterwards answers 404 \<open>Task not found\<close>.
\<close>

theorem purge_restore_only_from_trash:
  assumes "distinct (map task_id (tasks s))" and "t \<in> set (tasks s)"
  shows "(\<not> isDeleted t \<longrightarrow>
            purge_task s (userId t) (task_id t) = (Inl NotInTrash, s) \<and>
            restore_task s (userId t) (task_id t) = (Inl NotInTrash, s)) \<and>
         (isDeleted t \<longrightarrow>
            purge_task s (userId t) (task_id t) =
              (Inr (), s\<lparr>tasks := filter (\<lambda>x. x \<noteq> t) (tasks s)\<rparr>) \<and>
            get_task (snd (purge_task s (userId t) (task_id t))) (userId t) (task_id t) =
              (Inl NotFound, s\<lparr>tasks := filter (\<lambda>x. x \<noteq> t) (tasks s)\<rparr>))"
proof (intro conjI impI)
  assume "\<not> isDeleted t"
  then show "purge_task s (userId t) (task_id t) = (Inl NotInTrash, s)"
    using assms by (simp add: purge_task_def findFirst_trashed)
next
  assume "\<not> isDeleted t"
  then show "restore_task s (userId t) (task_id t) = (Inl NotInTrash, s)"
    using assms by (simp add: restore_task_def findFirst_trashed)
next
  assume del: "isDeleted t"
  have by_id: "find (\<lambda>x. task_id x = task_id t) (tasks s) = Some t"
    using assms by (intro find_unique_task) auto
  show purge: "purge_task s (userId t) (task_id t) =
      (Inr (), s\<lparr>tasks := filter (\<lambda>x. x \<noteq> t) (tasks s)\<rparr>)"
    using assms del by_id
    by (simp add: purge_task_def findFirst_trashed task_delete_def filter_remove_task)
  have "find (\<lambda>x. task_id x = task_id t \<and> userId x = userId t) (filter (\<lambda>x. x \<noteq> t) (tasks s)) = None"
    using assms by (auto simp: find_None_iff distinct_map inj_on_def)
  then show "get_task (snd (purge_task s (userId t) (task_id t))) (userId t) (task_id t) =
      (Inl NotFound, s\<lparr>tasks := filter (\<lambda>x. x \<noteq> t) (tasks s)\<rparr>)"
    by (simp add: purge get_task_def task_findFirst_def)
qed

theorem purge_restore_only_from_trash_witness:
  "distinct (map task_id (tasks ex_store)) \<and>
   ex_active \<in> set (tasks ex_store) \<and> \<not> isDeleted ex_active \<and>
   purge_task ex_store ''alice'' ''t1'' = (Inl NotInTrash, ex_store) \<and>
   restore_task ex_store ''alice'' ''t1'' = (Inl NotInTrash, ex_store) \<and>
   ex_trashed \<in> set (tasks ex_store) \<and> isDeleted ex_trashed \<and>
   purge_task ex_store ''alice'' ''t2'' = (Inr (), ex_store\<lparr>tasks := [ex_active]\<rparr>) \<and>
   get_task (ex_store\<lparr>tasks := [ex_active]\<rparr>) ''alice'' ''t2'' =
     (Inl NotFound, ex_store\<lparr>tasks := [ex_active]\<rparr>)"
proof -
  have d: "distinct (map task_id (tasks ex_store))"
    by (simp add: ex_store_def ex_active_def ex_trashed_def)
  have a: "ex_active \<in> set (tasks ex_store)" and b: "ex_trashed \<in> set (tasks ex_store)"
    by (simp_all add: ex_store_def)
  have ne: "ex_active \<noteq> ex_trashed"
    by (simp add: ex_active_def ex_trashed_def)
  have i: "\<not> isDeleted ex_active" "isDeleted ex_trashed"
    "userId ex_active = ''alice''" "task_id ex_active = ''t1''"
    "userId ex_trashed = ''alice''" "task_id ex_trashed = ''t2''"
    by (simp_all add: ex_active_def ex_trashed_def)
  from purge_restore_only_from_trash[OF d a, THEN conjunct1] i
  have A: "purge_task ex_store ''alice'' ''t1'' = (Inl NotInTrash, ex_store)"
    and B: "restore_task ex_store ''alice'' ''t1'' = (Inl NotInTrash, ex_store)"
    by simp_all
  from purge_restore_only_from_trash[OF d b, THEN conjunct2] i
  have C: "purge_task ex_store ''alice'' ''t2'' =
      (Inr (), ex_store\<lparr>tasks := filter (\<lambda>x. x \<noteq> ex_trashed) (tasks ex_store)\<rparr>)"
    and D: "get_task (snd (purge_task ex_store ''alice'' ''t2'')) ''alice'' ''t2'' =
      (Inl NotFound, ex_store\<lparr>tasks := filter (\<lambda>x. x \<noteq> ex_trashed) (tasks ex_store)\<rparr>)"
    by auto
  have F: "filter (\<lambda>x. x \<noteq> ex_trashed) (tasks ex_store) = [ex_active]"
    using ne by (simp add: ex_store_def)
  show ?thesis
    using d a b i(1,2) A B C D by (simp add: F)
qed

text \<open>
  C4. An active task carries no deletion timestamp (the data model's invariant). Soft
  delete marks it and stamps \<open>deletedAt\<close>, touching nothing else; restore then returns
  the original task, completion flag included, and the store is again the store before
  the delete.
\<close>

theorem soft_delete_restore_roundtrip:
  assumes "distinct (map task_id (tasks s))" and "t \<in> set (tasks s)"
    and "\<not> isDeleted t" and "deletedAt t = None"
  shows "soft_delete_task e s (userId t) (task_id t) =
           (Inr (), s\<lparr>tasks := map (\<lambda>x. if x = t then t\<lparr>isDeleted := True, deletedAt := Some (now e)\<rparr> else x)
                                (tasks s)\<rparr>)
         \<and> restore_task (snd (soft_delete_task e s (userId t) (task_id t))) (userId t) (task_id t) =
           (Inr (include_project s t), s)"
proof -
  define t' where "t' = t\<lparr>isDeleted := True, deletedAt := Some (now e)\<rparr>"
  define s' where "s' = s\<lparr>tasks := map (\<lambda>x. if x = t then t' else x) (tasks s)\<rparr>"
  have same: "task_id t' = task_id t" "userId t' = userId t" "isDeleted t'"
    by (simp_all add: t'_def)
  have del: "soft_delete_task e s (userId t) (task_id t) = (Inr (), s')"
    using assms by (simp add: soft_delete_task_def findFirst_owned task_update_owned s'_def t'_def)
  have fresh: "t' \<notin> set (tasks s)"
  proof
    assume "t' \<in> set (tasks s)"
    with assms(1,2) same(1) have "t' = t"
      by (metis distinct_map inj_on_def)
    with assms(3) same(3) show False by simp
  qed
  have d': "distinct (map task_id (tasks s'))"
    using assms(1) by (simp add: s'_def map_replace_ids[OF same(1)] del: map_map)
  have mem: "t' \<in> set (tasks s')"
    using assms(2) by (auto simp: s'_def)
  have undo: "t'\<lparr>isDeleted := False, deletedAt := None\<rparr> = t"
    using assms(3,4) by (simp add: t'_def)
  have S: "s'\<lparr>tasks := map (\<lambda>x. if x = t' then t else x) (tasks s')\<rparr> = s"
    using fresh by (simp add: s'_def map_replace_undo del: map_map)
  have U: "task_update (task_id t') (\<lambda>x. x\<lparr>isDeleted := False, deletedAt := None\<rparr>) s' = Some (t, s)"
    using task_update_owned[OF d' mem, of "\<lambda>x. x\<lparr>isDeleted := False, deletedAt := None\<rparr>"]
    unfolding undo S .
  have F: "task_findFirst (\<lambda>x. task_id x = task_id t' \<and> userId x = userId t' \<and> isDeleted x) s' = Some t'"
    using findFirst_trashed[OF d' mem] same(3) by simp
  have "restore_task s' (userId t') (task_id t') = (Inr (include_project s t), s)"
    by (simp add: restore_task_def F U)
  with del same show ?thesis
    by (simp add: s'_def t'_def)
qed

theorem soft_delete_restore_roundtrip_witness:
  "distinct (map task_id (tasks ex_store)) \<and> ex_active \<in> set (tasks ex_store) \<and>
   \<not> isDeleted ex_active \<and> deletedAt ex_active = None \<and> isComplete ex_active \<and>
   soft_delete_task ex_env ex_store ''alice'' ''t1'' =
     (Inr (), ex_store\<lparr>tasks := [ex_active\<lparr>isDeleted := True, deletedAt := Some 1000\<rparr>, ex_trashed]\<rparr>) \<and>
   restore_task (ex_store\<lparr>tasks := [ex_active\<lparr>isDeleted := True, deletedAt := Some 1000\<rparr>, ex_trashed]\<rparr>)
       ''alice'' ''t1'' =
     (Inr (ex_active, None), ex_store)"
proof -
  have h: "distinct (map task_id (tasks ex_store))" "ex_active \<in> set (tasks ex_store)"
    "\<not> isDeleted ex_active" "deletedAt ex_active = None"
    by (simp_all add: ex_store_def ex_active_def ex_trashed_def)
  have ne: "ex_trashed \<noteq> ex_active"
    by (simp add: ex_active_def ex_trashed_def)
  have p: "include_project ex_store ex_active = (ex_active, None)"
    by (simp add: include_project_def ex_active_def)
  have e: "now ex_env = 1000" "userId ex_active = ''alice''" "task_id ex_active = ''t1''"
    "isComplete ex_active"
    by (simp_all add: ex_env_def ex_active_def)
  have M: "map (\<lambda>x. if x = ex_active then ex_active\<lparr>isDeleted := True, deletedAt := Some (now ex_env)\<rparr> else x)
      (tasks ex_store) = [ex_active\<lparr>isDeleted := True, deletedAt := Some 1000\<rparr>, ex_trashed]"
    using ne by (simp add: ex_store_def e)
  from soft_delete_restore_roundtrip[OF h, of ex_env]
  have A: "soft_delete_task ex_env ex_store ''alice'' ''t1'' =
      (Inr (), ex_store\<lparr>tasks := [ex_active\<lparr>isDeleted := True, deletedAt := Some 1000\<rparr>, ex_trashed]\<rparr>)"
    and B: "restore_task (snd (soft_delete_task ex_env ex_store ''alice'' ''t1'')) ''alice'' ''t1'' =
      (Inr (ex_active, None), ex_store)"
    by (auto simp: p e M)
  show ?thesis
    using h e(4) A B by simp
qed

section \<open>The sort order\<close>

lemma dueDate_le_total: "dueDate_le a b \<or> dueDate_le b a"
  by (cases a; cases b) auto

lemma dueDate_le_trans: "dueDate_le a b \<Longrightarrow> dueDate_le b c \<Longrightarrow> dueDate_le a c"
  by (cases a; cases b; cases c) auto

lemma dueDate_le_antisym: "dueDate_le a b \<Longrightarrow> dueDate_le b a \<Longrightarrow> a = b"
  by (cases a; cases b) auto

lemma priority_rank_inj: "priority_rank p = priority_rank q \<Longrightarrow> p = q"
  by (cases p; cases q) auto

lemma order_le_total: "order_le a b \<or> order_le b a"
proof -
  have "priority a \<noteq> priority b \<Longrightarrow>
      priority_rank (priority b) < priority_rank (priority a) \<or>
      priority_rank (priority a) < priority_rank (priority b)"
    using priority_rank_inj[of "priority a" "priority b"] by linarith
  then show ?thesis
    using dueDate_le_total[of "dueDate a" "dueDate b"]
    by (auto simp: order_le_def)
qed

lemma order_le_trans:
  assumes "order_le a b" and "order_le b c"
  shows "order_le a c"
proof (cases "dueDate a = dueDate b")
  case ab: False
  show ?thesis
  proof (cases "dueDate b = dueDate c")
    case True
    with ab assms show ?thesis by (auto simp: order_le_def split: if_splits)
  next
    case False
    with ab assms have le: "dueDate_le (dueDate a) (dueDate b)" "dueDate_le (dueDate b) (dueDate c)"
      by (auto simp: order_le_def)
    then have "dueDate_le (dueDate a) (dueDate c)" by (rule dueDate_le_trans)
    moreover have "dueDate a \<noteq> dueDate c"
      using le ab dueDate_le_antisym by metis
    ultimately show ?thesis by (simp add: order_le_def)
  qed
next
  case ab: True
  show ?thesis
  proof (cases "dueDate b = dueDate c")
    case False
    with ab assms show ?thesis by (auto simp: order_le_def split: if_splits)
  next
    case True
    with ab assms show ?thesis
      by (auto simp: order_le_def split: if_splits dest: priority_rank_inj)
  qed
qed

lemma set_insert_ordered: "set (insert_ordered x ys) = insert x (set ys)"
  by (induction ys) auto

lemma mset_insert_ordered: "mset (insert_ordered x ys) = add_mset x (mset ys)"
  by (induction ys) auto

lemma mset_orderBy: "mset (orderBy xs) = mset xs"
  by (induction xs) (auto simp: mset_insert_ordered)

lemma sorted_insert_ordered:
  "sorted_wrt order_le ys \<Longrightarrow> sorted_wrt order_le (insert_ordered x ys)"
proof (induction ys)
  case Nil
  then show ?case by simp
next
  case (Cons y ys)
  show ?case
  proof (cases "order_le x y")
    case True
    with Cons.prems show ?thesis
      by (auto intro: order_le_trans)
  next
    case False
    with order_le_total[of x y] have "order_le y x" by simp
    with Cons False show ?thesis
      by (auto simp: set_insert_ordered)
  qed
qed

lemma sorted_orderBy: "sorted_wrt order_le (orderBy xs)"
  by (induction xs) (auto intro: sorted_insert_ordered)

section \<open>Invariants of the reachable states\<close>

lemma store_inv_iff:
  "store_inv s \<longleftrightarrow>
     distinct (map task_id (tasks s)) \<and> distinct (map project_id (projects s)) \<and>
     (\<forall>t\<in>set (tasks s). isDeleted t = (deletedAt t \<noteq> None)) \<and>
     (\<forall>t\<in>set (tasks s). \<forall>p. projectId t = Some p \<longrightarrow>
        (\<exists>pr\<in>set (projects s). project_id pr = p \<and> project_userId pr = userId t))"
  by (auto simp: store_inv_def trash_stamped_def project_owned_def list_all_iff list_ex_iff
      split: option.splits)

lemma store_inv_users: "store_inv (s\<lparr>users := us\<rparr>) = store_inv s"
  by (simp add: store_inv_iff)

lemma store_inv_map_tasks:
  assumes "store_inv s"
    and "\<And>t. t \<in> set (tasks s) \<Longrightarrow> task_id (g t) = task_id t \<and> userId (g t) = userId t"
    and "\<And>t. t \<in> set (tasks s) \<Longrightarrow> isDeleted t = (deletedAt t \<noteq> None) \<Longrightarrow>
           isDeleted (g t) = (deletedAt (g t) \<noteq> None)"
    and "\<And>t p. t \<in> set (tasks s) \<Longrightarrow> projectId (g t) = Some p \<Longrightarrow>
           projectId t = Some p \<or>
           (\<exists>pr\<in>set (projects s). project_id pr = p \<and> project_userId pr = userId t)"
  shows "store_inv (s\<lparr>tasks := map g (tasks s)\<rparr>)"
proof -
  have ids: "map task_id (map g (tasks s)) = map task_id (tasks s)"
    using assms(2) by (induction "tasks s") (auto simp: map_eq_conv)
  show ?thesis
    unfolding store_inv_iff
  proof (intro conjI ballI allI impI)
    show "distinct (map task_id (tasks (s\<lparr>tasks := map g (tasks s)\<rparr>)))"
      using assms(1) ids by (simp add: store_inv_iff del: map_map)
    show "distinct (map project_id (projects (s\<lparr>tasks := map g (tasks s)\<rparr>)))"
      using assms(1) by (simp add: store_inv_iff)
  next
    fix t assume "t \<in> set (tasks (s\<lparr>tasks := map g (tasks s)\<rparr>))"
    then obtain t0 where t0: "t0 \<in> set (tasks s)" "t = g t0" by auto
    with assms(1,3) show "isDeleted t = (deletedAt t \<noteq> None)"
      by (simp add: store_inv_iff)
  next
    fix t p assume "t \<in> set (tasks (s\<lparr>tasks := map g (tasks s)\<rparr>))" and p: "projectId t = Some p"
    then obtain t0 where t0: "t0 \<in> set (tasks s)" "t = g t0" by auto
    from assms(4)[OF t0(1)] p t0(2)
    have "projectId t0 = Some p \<or>
        (\<exists>pr\<in>set (projects s). project_id pr = p \<and> project_userId pr = userId t0)"
      by simp
    moreover have "userId t = userId t0" using assms(2) t0 by simp
    ultimately show "\<exists>pr\<in>set (projects (s\<lparr>tasks := map g (tasks s)\<rparr>)).
        project_id pr = p \<and> project_userId pr = userId t"
      using assms(1) t0(1) by (auto simp: store_inv_iff)
  qed
qed

lemma store_inv_filter_tasks:
  "store_inv s \<Longrightarrow> store_inv (s\<lparr>tasks := filter P (tasks s)\<rparr>)"
  by (auto simp: store_inv_iff distinct_map_filter)

lemma task_update_SomeD:
  "task_update i f s = Some (t', s') \<Longrightarrow>
     s' = s\<lparr>tasks := map (\<lambda>x. if task_id x = i then f x else x) (tasks s)\<rparr>"
  by (auto simp: task_update_def split: option.splits)

lemma inv_toggle: "store_inv s \<Longrightarrow> store_inv (snd (toggle_task s uid i))"
  by (auto simp: toggle_task_def split: option.splits if_splits dest!: task_update_SomeD
      intro!: store_inv_map_tasks)

lemma inv_soft_delete: "store_inv s \<Longrightarrow> store_inv (snd (soft_delete_task e s uid i))"
  by (auto simp: soft_delete_task_def split: option.splits if_splits dest!: task_update_SomeD
      intro!: store_inv_map_tasks)

lemma inv_restore: "store_inv s \<Longrightarrow> store_inv (snd (restore_task s uid i))"
  by (auto simp: restore_task_def split: option.splits if_splits dest!: task_update_SomeD
      intro!: store_inv_map_tasks)

lemma inv_purge: "store_inv s \<Longrightarrow> store_inv (snd (purge_task s uid i))"
  by (auto simp: purge_task_def task_delete_def split: option.splits
      intro!: store_inv_filter_tasks)


lemma find_SomeD: "find P xs = Some x \<Longrightarrow> x \<in> set xs \<and> P x"
  by (auto simp: find_Some_iff)

lemma isUUID_Nil: "\<not> isUUID []"
  by (simp add: isUUID_def)

lemma inv_post_task: "store_inv s \<Longrightarrow> store_inv (snd (post_task e s uid b))"
proof -
  assume inv: "store_inv s"
  show ?thesis
  proof (cases "post_task e s uid b")
    case (Pair r s')
    show ?thesis
    proof (cases r)
      case (Inl a)
      with Pair inv show ?thesis
        by (auto simp: post_task_def Let_def task_create_def isUUID_Nil split: if_splits option.splits)
    next
      case (Inr v)
      with Pair obtain t where s': "s' = s\<lparr>tasks := tasks s @ [t]\<rparr>"
        and new: "task_id t \<notin> task_id ` set (tasks s)"
        and stamp: "isDeleted t = False" "deletedAt t = None"
        and own: "userId t = uid"
        and pid: "projectId t = b_projectId b"
        and chk: "\<not> (truthy (b_projectId b) \<and>
          project_findFirst (\<lambda>p. Some (project_id p) = b_projectId b \<and> project_userId p = uid) s = None)"
        and valid: "\<not> (case b_projectId b of None \<Rightarrow> False | Some p \<Rightarrow> \<not> isUUID p)"
        by (auto simp: post_task_def Let_def task_create_def isUUID_Nil split: if_splits option.splits)
      have "\<exists>pr\<in>set (projects s). project_id pr = p \<and> project_userId pr = userId t"
        if "projectId t = Some p" for p
      proof -
        from that pid valid have "isUUID p" by simp
        then have "p \<noteq> []" by (auto simp: isUUID_def)
        with that pid chk obtain pr where
          "project_findFirst (\<lambda>q. Some (project_id q) = Some p \<and> project_userId q = uid) s = Some pr"
          by auto
        then show ?thesis
          using own by (auto simp: project_findFirst_def dest!: find_SomeD)
      qed
      with inv new stamp show ?thesis
        unfolding Pair s' store_inv_iff by auto
    qed
  qed
qed

lemma updateData_fields:
  "task_id (updateData b t) = task_id t" "userId (updateData b t) = userId t"
  "isDeleted (updateData b t) = isDeleted t" "deletedAt (updateData b t) = deletedAt t"
  "projectId (updateData b t) = (case b_projectId b of None \<Rightarrow> projectId t | Some x \<Rightarrow> Some x)"
  by (simp_all add: updateData_def Let_def split: option.splits)

lemma inv_put_task: "store_inv s \<Longrightarrow> store_inv (snd (put_task s uid i b))"
proof -
  assume inv: "store_inv s"
  show ?thesis
  proof (cases "put_task s uid i b")
    case (Pair r s')
    show ?thesis
    proof (cases r)
      case (Inl a)
      with Pair inv show ?thesis
        by (auto simp: put_task_def Let_def split: if_splits option.splits)
    next
      case (Inr v)
      define b' where "b' = b\<lparr>b_title := map_option trim (b_title b),
                   b_description := map_option trim (b_description b)\<rparr>"
      from Inr Pair obtain t0 where
        s': "s' = s\<lparr>tasks := map (\<lambda>x. if task_id x = i then updateData b' x else x) (tasks s)\<rparr>"
        and found: "task_findFirst (\<lambda>t. task_id t = i \<and> userId t = uid) s = Some t0"
        and chk: "\<not> (truthy (b_projectId b) \<and>
          project_findFirst (\<lambda>p. Some (project_id p) = b_projectId b \<and> project_userId p = uid) s = None)"
        and valid: "\<not> (case b_projectId b of None \<Rightarrow> False | Some p \<Rightarrow> \<not> isUUID p)"
        by (auto simp: put_task_def Let_def b'_def split: if_splits option.splits
            dest!: task_update_SomeD)
      from found have t0: "t0 \<in> set (tasks s)" "task_id t0 = i" "userId t0 = uid"
        by (auto simp: task_findFirst_def dest!: find_SomeD)
      have owner: "userId t = uid" if "t \<in> set (tasks s)" "task_id t = i" for t
        using that t0 inv by (metis store_inv_iff distinct_map inj_on_def)
      have "store_inv (s\<lparr>tasks := map (\<lambda>x. if task_id x = i then updateData b' x else x) (tasks s)\<rparr>)"
      proof (rule store_inv_map_tasks[OF inv], goal_cases)
        case (1 t)
        then show ?case by (simp add: updateData_fields)
      next
        case (2 t)
        then show ?case by (simp add: updateData_fields)
      next
        case (3 t p)
        show ?case
        proof (cases "task_id t = i \<and> b_projectId b \<noteq> None")
          case False
          with 3 show ?thesis
            by (auto simp: updateData_fields b'_def split: if_splits option.splits)
        next
          case True
          with 3 have bp: "b_projectId b = Some p"
            by (auto simp: updateData_fields b'_def)
          with valid have "isUUID p" by simp
          then have "p \<noteq> []" by (auto simp: isUUID_def)
          with bp chk obtain pr where
            "project_findFirst (\<lambda>q. Some (project_id q) = Some p \<and> project_userId q = uid) s = Some pr"
            by auto
          then have "\<exists>pr\<in>set (projects s). project_id pr = p \<and> project_userId pr = uid"
            by (auto simp: project_findFirst_def dest!: find_SomeD)
          with owner[OF 3(1)] True show ?thesis by auto
        qed
      qed
      with Pair s' show ?thesis by simp
    qed
  qed
qed

lemma inv_post_project: "store_inv s \<Longrightarrow> store_inv (snd (post_project e s uid pb))"
  by (auto simp: post_project_def project_create_def store_inv_iff split: if_splits option.splits)

lemma inv_put_project: "store_inv s \<Longrightarrow> store_inv (snd (put_project s uid i pb))"
proof -
  assume inv: "store_inv s"
  define f :: "project \<Rightarrow> project" where "f = (\<lambda>p. let p1 = (case pb_name pb of None \<Rightarrow> p
                                    | Some x \<Rightarrow> p\<lparr>project_name := trim (trim x)\<rparr>)
                          in (case pb_color pb of None \<Rightarrow> p1 | Some c \<Rightarrow> p1\<lparr>color := c\<rparr>))"
  have f: "project_id (f p) = project_id p" "project_userId (f p) = project_userId p" for p
    by (simp_all add: f_def Let_def split: option.splits)
  define g where "g = (\<lambda>x. if project_id x = i then f x else x)"
  have g: "project_id (g p) = project_id p" "project_userId (g p) = project_userId p" for p
    by (simp_all add: g_def f)
  have ids: "map project_id (map g ps) = map project_id ps" for ps
    by (induction ps) (auto simp: g)
  have "store_inv (s\<lparr>projects := map g (projects s)\<rparr>)"
    unfolding store_inv_iff
  proof (intro conjI ballI allI impI)
    fix t p assume "t \<in> set (tasks (s\<lparr>projects := map g (projects s)\<rparr>))" "projectId t = Some p"
    with inv obtain pr where "pr \<in> set (projects s)" "project_id pr = p" "project_userId pr = userId t"
      unfolding store_inv_iff by simp blast
    then have "g pr \<in> set (map g (projects s))" "project_id (g pr) = p" "project_userId (g pr) = userId t"
      by (auto simp: g)
    then show "\<exists>pr\<in>set (projects (s\<lparr>projects := map g (projects s)\<rparr>)).
        project_id pr = p \<and> project_userId pr = userId t"
      by (metis (no_types, lifting) store.select_convs(2) store.surjective store.update_convs(2))
  qed (use inv ids in \<open>auto simp: store_inv_iff simp del: map_map\<close>)
  moreover have "snd (put_project s uid i pb) = s \<or>
      snd (put_project s uid i pb) = s\<lparr>projects := map g (projects s)\<rparr>"
    by (auto simp: put_project_def project_update_def g_def f_def split: if_splits option.splits)
  ultimately show ?thesis
    using inv by auto
qed

lemma inv_delete_project: "store_inv s \<Longrightarrow> store_inv (snd (delete_project s uid i))"
proof -
  assume inv: "store_inv s"
  let ?ts = "map (\<lambda>t. if projectId t = Some i then t\<lparr>projectId := None\<rparr> else t) (tasks s)"
  have ids: "map task_id ?ts = map task_id (tasks s)"
    by (induction "tasks s") auto
  have "store_inv (s\<lparr>tasks := ?ts, projects := filter (\<lambda>x. project_id x \<noteq> i) (projects s)\<rparr>)"
    using inv ids unfolding store_inv_iff
    by (auto simp: distinct_map_filter simp del: map_map split: if_splits) blast+
  then show ?thesis
    by (auto simp: delete_project_def task_updateMany_def project_delete_def inv
        split: option.splits)
qed

lemma inv_delete_account: "store_inv s \<Longrightarrow> store_inv (snd (delete_account s uid))"
  by (auto simp: delete_account_def user_delete_def store_inv_iff distinct_map_filter
      split: option.splits) metis+

lemma inv_register: "store_inv s \<Longrightarrow> store_inv (snd (register hash e s em pw nm))"
  by (auto simp: register_def user_create_def store_inv_users Let_def split: option.splits if_splits)

lemma inv_google: "store_inv s \<Longrightarrow> store_inv (snd (google_strategy e s p))"
  by (auto simp: google_strategy_def user_create_def user_update_def store_inv_users Let_def
      split: option.splits if_splits list.splits)

lemma inv_put_profile: "store_inv s \<Longrightarrow> store_inv (snd (put_profile s uid nm av))"
  by (auto simp: put_profile_def user_update_def store_inv_users Let_def split: option.splits if_splits)

lemma inv_put_password: "store_inv s \<Longrightarrow> store_inv (snd (put_password hash compare s uid cur new))"
  by (auto simp: put_password_def user_update_def store_inv_users Let_def split: option.splits if_splits)

lemma inv_empty: "store_inv empty_store"
  by (simp add: store_inv_iff empty_store_def)

lemma reachable_inv: "reachable s \<Longrightarrow> store_inv s"
  by (induction rule: reachable.induct)
    (simp_all add: inv_empty inv_register inv_google inv_put_profile inv_put_password
      inv_delete_account inv_post_task inv_put_task inv_toggle inv_soft_delete inv_restore
      inv_purge inv_post_project inv_put_project inv_delete_project)

section \<open>Project deletion\<close>

lemma isUUID_ex: "isUUID ex_uuid"
  by (simp add: isUUID_def ex_uuid_def is_hex_def)

lemma trim_ex: "trim ''Work'' = ''Work''" "trim ''Plan'' = ''Plan''"
  by (simp_all add: trim_def is_space_def)

lemma ex_linked_reachable: "reachable ex_linked_store"
proof -
  have 1: "snd (post_project (ex_env\<lparr>fresh_id := ex_uuid\<rparr>) empty_store ''alice''
      \<lparr>pb_name = Some ''Work'', pb_color = None\<rparr>) =
      \<lparr>users = [], projects = [ex_project], tasks = []\<rparr>"
    by (simp add: post_project_def project_create_def empty_store_def ex_project_def ex_env_def
        trim_ex)
  have 2: "snd (post_task (ex_env\<lparr>fresh_id := ''t9''\<rparr>) \<lparr>users = [], projects = [ex_project], tasks = []\<rparr> ''alice''
      \<lparr>b_title = Some ''Plan'', b_description = None, b_dueDate = None, b_priority = None,
       b_isComplete = None, b_projectId = Some ex_uuid\<rparr>) = ex_linked_store"
    using isUUID_ex
    by (simp add: post_task_def task_create_def project_findFirst_def ex_project_def ex_env_def
        trim_ex ex_linked_store_def ex_linked_def Let_def include_project_def)
  from reachable.r_post_task[OF reachable.r_post_project[OF reachable.init]]
  show ?thesis
    using 1 2 by metis
qed

lemma no_dangling_of_inv: "store_inv s \<Longrightarrow> no_dangling s"
  by (auto simp: store_inv_iff no_dangling_def list_all_iff list_ex_iff split: option.splits) blast

lemma delete_project_cases:
  "delete_project s uid i = (Inl NotFound, s) \<or>
   delete_project s uid i =
     (Inr (), s\<lparr>tasks := map (\<lambda>t. if projectId t = Some i then t\<lparr>projectId := None\<rparr> else t) (tasks s),
               projects := filter (\<lambda>x. project_id x \<noteq> i) (projects s)\<rparr>)"
  by (auto simp: delete_project_def task_updateMany_def project_delete_def project_findFirst_def
      find_None_iff split: option.splits)

text \<open>
  C5. Project deletion runs \<open>updateMany\<close> and \<open>delete\<close> in one transaction. In every
  reachable store no task refers to a project that does not exist, before and after the
  deletion. The deletion keeps every task and changes no field of a task but
  \<open>projectId\<close>; when it succeeds, the tasks that referred to the project have
  \<open>projectId\<close> null, no task refers to the project any more, and the project is gone.
\<close>

theorem project_deletion_clears_references:
  assumes "reachable s"
  shows "no_dangling s \<and> no_dangling (snd (delete_project s uid i)) \<and>
         map (\<lambda>t. t\<lparr>projectId := None\<rparr>) (tasks (snd (delete_project s uid i))) =
           map (\<lambda>t. t\<lparr>projectId := None\<rparr>) (tasks s) \<and>
         (fst (delete_project s uid i) = Inr () \<longrightarrow>
            tasks (snd (delete_project s uid i)) =
              map (\<lambda>t. if projectId t = Some i then t\<lparr>projectId := None\<rparr> else t) (tasks s) \<and>
            list_all (\<lambda>t. projectId t \<noteq> Some i) (tasks (snd (delete_project s uid i))) \<and>
            \<not> list_ex (\<lambda>p. project_id p = i) (projects (snd (delete_project s uid i))))"
proof -
  have "no_dangling s"
    using assms by (intro no_dangling_of_inv reachable_inv)
  moreover have "no_dangling (snd (delete_project s uid i))"
    using assms by (intro no_dangling_of_inv reachable_inv reachable.r_delete_project)
  moreover have "map (\<lambda>t. t\<lparr>projectId := None\<rparr>) (tasks (snd (delete_project s uid i))) =
      map (\<lambda>t. t\<lparr>projectId := None\<rparr>) (tasks s)"
    using delete_project_cases[of s uid i] by auto
  moreover have "tasks (snd (delete_project s uid i)) =
      map (\<lambda>t. if projectId t = Some i then t\<lparr>projectId := None\<rparr> else t) (tasks s)"
    "list_all (\<lambda>t. projectId t \<noteq> Some i) (tasks (snd (delete_project s uid i)))"
    "\<not> list_ex (\<lambda>p. project_id p = i) (projects (snd (delete_project s uid i)))"
    if "fst (delete_project s uid i) = Inr ()"
    using delete_project_cases[of s uid i] that
    by (auto simp: list_all_iff list_ex_iff)
  ultimately show ?thesis by blast
qed

text \<open>
  The store of the example is reachable (a project and a task under it were created
  through the routes); deleting the project clears the task's reference and keeps the task.
\<close>

theorem project_deletion_clears_references_witness:
  "reachable ex_linked_store \<and> no_dangling ex_linked_store \<and>
   projectId ex_linked = Some ex_uuid \<and>
   delete_project ex_linked_store ''alice'' ex_uuid =
     (Inr (), \<lparr>users = [], projects = [], tasks = [ex_linked\<lparr>projectId := None\<rparr>]\<rparr>)"
proof -
  have d: "delete_project ex_linked_store ''alice'' ex_uuid =
     (Inr (), \<lparr>users = [], projects = [], tasks = [ex_linked\<lparr>projectId := None\<rparr>]\<rparr>)"
    by (simp add: delete_project_def project_findFirst_def task_updateMany_def project_delete_def
        ex_linked_store_def ex_project_def ex_linked_def)
  show ?thesis
    using ex_linked_reachable d
      project_deletion_clears_references[OF ex_linked_reachable, of "''alice''" ex_uuid]
    by (simp add: ex_linked_def)
qed

section \<open>Isolation between owners\<close>

lemma set_orderBy: "set (orderBy xs) = set xs"
  using mset_orderBy[of xs] by (metis set_mset_mset)

lemma build_where_userId: "w_userId (build_where e a c) = a"
  by (simp add: build_where_def Let_def split: option.splits view_name.splits status_name.splits)

lemma findMany_owner: "x \<in> set (task_findMany (build_where e a c) s) \<Longrightarrow> userId x = a"
  by (auto simp: task_findMany_def set_orderBy matches_def build_where_userId)

lemma not_owned_task_ops:
  assumes "\<And>x. x \<in> set (tasks s) \<Longrightarrow> task_id x = i \<Longrightarrow> userId x \<noteq> a"
  shows "get_task s a i = (Inl NotFound, s) \<and>
         put_task s a i b =
           (Inl (if (case b_title b of None \<Rightarrow> False | Some x \<Rightarrow> x = []) \<or>
                    (case b_projectId b of None \<Rightarrow> False | Some q \<Rightarrow> \<not> isUUID q)
                 then ValidationError else NotFound), s) \<and>
         toggle_task s a i = (Inl NotFound, s) \<and>
         soft_delete_task e s a i = (Inl NotFound, s) \<and>
         restore_task s a i = (Inl NotInTrash, s) \<and>
         purge_task s a i = (Inl NotInTrash, s)"
proof -
  have n: "\<forall>x\<in>set (tasks s). \<not> (task_id x = i \<and> userId x = a)"
    using assms by blast
  have f1: "task_findFirst (\<lambda>x. task_id x = i \<and> userId x = a) s = None"
    using n by (simp add: task_findFirst_def find_None_iff)
  have "\<forall>x\<in>set (tasks s). \<not> (task_id x = i \<and> userId x = a \<and> isDeleted x)"
    using n by blast
  then have f2: "task_findFirst (\<lambda>x. task_id x = i \<and> userId x = a \<and> isDeleted x) s = None"
    by (simp add: task_findFirst_def find_None_iff)
  show ?thesis
    by (simp add: get_task_def put_task_def toggle_task_def soft_delete_task_def restore_task_def
        purge_task_def f1 f2 Let_def)
qed

lemma not_owned_project_ops:
  assumes "\<And>x. x \<in> set (projects s) \<Longrightarrow> project_id x = i \<Longrightarrow> project_userId x \<noteq> a"
  shows "get_project s a i = (Inl NotFound, s) \<and>
         put_project s a i pb =
           (Inl (if (case pb_name pb of None \<Rightarrow> False | Some x \<Rightarrow> x = []) \<or>
                    (case pb_color pb of None \<Rightarrow> False | Some q \<Rightarrow> \<not> is_color q)
                 then ValidationError else NotFound), s) \<and>
         delete_project s a i = (Inl NotFound, s)"
proof -
  have n: "\<forall>x\<in>set (projects s). \<not> (project_id x = i \<and> project_userId x = a)"
    using assms by blast
  have f1: "project_findFirst (\<lambda>x. project_id x = i \<and> project_userId x = a) s = None"
    using n by (simp add: project_findFirst_def find_None_iff)
  show ?thesis
    by (simp add: get_project_def put_project_def delete_project_def f1)
qed

lemma foreign_task_not_owned:
  assumes "distinct (map task_id (tasks s))" and "t \<in> set (tasks s)" and "userId t \<noteq> a"
    and "x \<in> set (tasks s)" and "task_id x = task_id t"
  shows "userId x \<noteq> a"
proof -
  from assms(1) have "inj_on task_id (set (tasks s))"
    by (simp add: distinct_map)
  with assms(2,4,5) have "x = t" by (meson inj_onD)
  with assms(3) show ?thesis by simp
qed

lemma foreign_project_not_owned:
  assumes "distinct (map project_id (projects s))" and "p \<in> set (projects s)"
    and "project_userId p \<noteq> a" and "x \<in> set (projects s)" and "project_id x = project_id p"
  shows "project_userId x \<noteq> a"
proof -
  from assms(1) have "inj_on project_id (set (projects s))"
    by (simp add: distinct_map)
  with assms(2,4,5) have "x = p" by (meson inj_onD)
  with assms(3) show ?thesis by simp
qed

text \<open>
  C7. Every handler that takes an id looks the row up with the caller's id in the
  filter, so what the caller \<open>a\<close> gets for an id depends only on whether \<open>a\<close> owns a
  row with that id. The four parts stand on their own hypotheses: the id of a task \<open>t\<close>
  of somebody else, an id \<open>j\<close> that no task has, the id of a project \<open>p\<close> of somebody
  else, an id \<open>k\<close> that no project has. In each the answers are the same fixed
  responses and the store is left alone: 404 \<open>not found\<close> for fetch, update, toggle,
  soft delete and project delete (an update with an invalid body is a 400 whatever the
  id), 404 \<open>not found in trash\<close> for restore and permanent delete. So a foreign id is
  answered exactly as a missing one. The task list and the project list of \<open>a\<close> hold
  only rows owned by \<open>a\<close>, in every store.
\<close>

theorem cross_owner_isolation:
  "(distinct (map task_id (tasks s)) \<and> t \<in> set (tasks s) \<and> userId t \<noteq> a \<longrightarrow>
      get_task s a (task_id t) = (Inl NotFound, s) \<and>
      put_task s a (task_id t) b =
        (Inl (if (case b_title b of None \<Rightarrow> False | Some x \<Rightarrow> x = []) \<or>
                 (case b_projectId b of None \<Rightarrow> False | Some q \<Rightarrow> \<not> isUUID q)
              then ValidationError else NotFound), s) \<and>
      toggle_task s a (task_id t) = (Inl NotFound, s) \<and>
      soft_delete_task e s a (task_id t) = (Inl NotFound, s) \<and>
      restore_task s a (task_id t) = (Inl NotInTrash, s) \<and>
      purge_task s a (task_id t) = (Inl NotInTrash, s)) \<and>
   (j \<notin> task_id ` set (tasks s) \<longrightarrow>
      get_task s a j = (Inl NotFound, s) \<and>
      put_task s a j b =
        (Inl (if (case b_title b of None \<Rightarrow> False | Some x \<Rightarrow> x = []) \<or>
                 (case b_projectId b of None \<Rightarrow> False | Some q \<Rightarrow> \<not> isUUID q)
              then ValidationError else NotFound), s) \<and>
      toggle_task s a j = (Inl NotFound, s) \<and>
      soft_delete_task e s a j = (Inl NotFound, s) \<and>
      restore_task s a j = (Inl NotInTrash, s) \<and>
      purge_task s a j = (Inl NotInTrash, s)) \<and>
   (distinct (map project_id (projects s)) \<and> p \<in> set (projects s) \<and> project_userId p \<noteq> a \<longrightarrow>
      get_project s a (project_id p) = (Inl NotFound, s) \<and>
      put_project s a (project_id p) pb =
        (Inl (if (case pb_name pb of None \<Rightarrow> False | Some x \<Rightarrow> x = []) \<or>
                 (case pb_color pb of None \<Rightarrow> False | Some q \<Rightarrow> \<not> is_color q)
              then ValidationError else NotFound), s) \<and>
      delete_project s a (project_id p) = (Inl NotFound, s)) \<and>
   (k \<notin> project_id ` set (projects s) \<longrightarrow>
      get_project s a k = (Inl NotFound, s) \<and>
      put_project s a k pb =
        (Inl (if (case pb_name pb of None \<Rightarrow> False | Some x \<Rightarrow> x = []) \<or>
                 (case pb_color pb of None \<Rightarrow> False | Some q \<Rightarrow> \<not> is_color q)
              then ValidationError else NotFound), s) \<and>
      delete_project s a k = (Inl NotFound, s)) \<and>
   (case fst (get_tasks e s a c) of
      Inl err \<Rightarrow> True
    | Inr r \<Rightarrow> list_all (\<lambda>v. userId (fst v) = a) r) \<and>
   (case fst (get_projects s a) of
      Inl err \<Rightarrow> True
    | Inr r \<Rightarrow> list_all (\<lambda>v. project_userId (fst v) = a) r)"
proof -
  have A: "distinct (map task_id (tasks s)) \<and> t \<in> set (tasks s) \<and> userId t \<noteq> a \<longrightarrow>
      get_task s a (task_id t) = (Inl NotFound, s) \<and>
      put_task s a (task_id t) b =
        (Inl (if (case b_title b of None \<Rightarrow> False | Some x \<Rightarrow> x = []) \<or>
                 (case b_projectId b of None \<Rightarrow> False | Some q \<Rightarrow> \<not> isUUID q)
              then ValidationError else NotFound), s) \<and>
      toggle_task s a (task_id t) = (Inl NotFound, s) \<and>
      soft_delete_task e s a (task_id t) = (Inl NotFound, s) \<and>
      restore_task s a (task_id t) = (Inl NotInTrash, s) \<and>
      purge_task s a (task_id t) = (Inl NotInTrash, s)"
  proof
    assume "distinct (map task_id (tasks s)) \<and> t \<in> set (tasks s) \<and> userId t \<noteq> a"
    then have "\<And>x. x \<in> set (tasks s) \<Longrightarrow> task_id x = task_id t \<Longrightarrow> userId x \<noteq> a"
      using foreign_task_not_owned by blast
    then show "get_task s a (task_id t) = (Inl NotFound, s) \<and>
      put_task s a (task_id t) b =
        (Inl (if (case b_title b of None \<Rightarrow> False | Some x \<Rightarrow> x = []) \<or>
                 (case b_projectId b of None \<Rightarrow> False | Some q \<Rightarrow> \<not> isUUID q)
              then ValidationError else NotFound), s) \<and>
      toggle_task s a (task_id t) = (Inl NotFound, s) \<and>
      soft_delete_task e s a (task_id t) = (Inl NotFound, s) \<and>
      restore_task s a (task_id t) = (Inl NotInTrash, s) \<and>
      purge_task s a (task_id t) = (Inl NotInTrash, s)"
      by (rule not_owned_task_ops)
  qed
  have B: "j \<notin> task_id ` set (tasks s) \<longrightarrow>
      get_task s a j = (Inl NotFound, s) \<and>
      put_task s a j b =
        (Inl (if (case b_title b of None \<Rightarrow> False | Some x \<Rightarrow> x = []) \<or>
                 (case b_projectId b of None \<Rightarrow> False | Some q \<Rightarrow> \<not> isUUID q)
              then ValidationError else NotFound), s) \<and>
      toggle_task s a j = (Inl NotFound, s) \<and>
      soft_delete_task e s a j = (Inl NotFound, s) \<and>
      restore_task s a j = (Inl NotInTrash, s) \<and>
      purge_task s a j = (Inl NotInTrash, s)"
  proof
    assume "j \<notin> task_id ` set (tasks s)"
    then have "\<And>x. x \<in> set (tasks s) \<Longrightarrow> task_id x = j \<Longrightarrow> userId x \<noteq> a"
      by blast
    then show "get_task s a j = (Inl NotFound, s) \<and>
      put_task s a j b =
        (Inl (if (case b_title b of None \<Rightarrow> False | Some x \<Rightarrow> x = []) \<or>
                 (case b_projectId b of None \<Rightarrow> False | Some q \<Rightarrow> \<not> isUUID q)
              then ValidationError else NotFound), s) \<and>
      toggle_task s a j = (Inl NotFound, s) \<and>
      soft_delete_task e s a j = (Inl NotFound, s) \<and>
      restore_task s a j = (Inl NotInTrash, s) \<and>
      purge_task s a j = (Inl NotInTrash, s)"
      by (rule not_owned_task_ops)
  qed
  have C: "distinct (map project_id (projects s)) \<and> p \<in> set (projects s) \<and> project_userId p \<noteq> a \<longrightarrow>
      get_project s a (project_id p) = (Inl NotFound, s) \<and>
      put_project s a (project_id p) pb =
        (Inl (if (case pb_name pb of None \<Rightarrow> False | Some x \<Rightarrow> x = []) \<or>
                 (case pb_color pb of None \<Rightarrow> False | Some q \<Rightarrow> \<not> is_color q)
              then ValidationError else NotFound), s) \<and>
      delete_project s a (project_id p) = (Inl NotFound, s)"
  proof
    assume "distinct (map project_id (projects s)) \<and> p \<in> set (projects s) \<and> project_userId p \<noteq> a"
    then have "\<And>x. x \<in> set (projects s) \<Longrightarrow> project_id x = project_id p \<Longrightarrow> project_userId x \<noteq> a"
      using foreign_project_not_owned by blast
    then show "get_project s a (project_id p) = (Inl NotFound, s) \<and>
      put_project s a (project_id p) pb =
        (Inl (if (case pb_name pb of None \<Rightarrow> False | Some x \<Rightarrow> x = []) \<or>
                 (case pb_color pb of None \<Rightarrow> False | Some q \<Rightarrow> \<not> is_color q)
              then ValidationError else NotFound), s) \<and>
      delete_project s a (project_id p) = (Inl NotFound, s)"
      by (rule not_owned_project_ops)
  qed
  have D: "k \<notin> project_id ` set (projects s) \<longrightarrow>
      get_project s a k = (Inl NotFound, s) \<and>
      put_project s a k pb =
        (Inl (if (case pb_name pb of None \<Rightarrow> False | Some x \<Rightarrow> x = []) \<or>
                 (case pb_color pb of None \<Rightarrow> False | Some q \<Rightarrow> \<not> is_color q)
              then ValidationError else NotFound), s) \<and>
      delete_project s a k = (Inl NotFound, s)"
  proof
    assume "k \<notin> project_id ` set (projects s)"
    then have "\<And>x. x \<in> set (projects s) \<Longrightarrow> project_id x = k \<Longrightarrow> project_userId x \<noteq> a"
      by blast
    then show "get_project s a k = (Inl NotFound, s) \<and>
      put_project s a k pb =
        (Inl (if (case pb_name pb of None \<Rightarrow> False | Some x \<Rightarrow> x = []) \<or>
                 (case pb_color pb of None \<Rightarrow> False | Some q \<Rightarrow> \<not> is_color q)
              then ValidationError else NotFound), s) \<and>
      delete_project s a k = (Inl NotFound, s)"
      by (rule not_owned_project_ops)
  qed
  have E: "case fst (get_tasks e s a c) of
      Inl err \<Rightarrow> True
    | Inr r \<Rightarrow> list_all (\<lambda>v. userId (fst v) = a) r"
    by (auto simp: get_tasks_def Let_def list_all_iff include_project_def dest!: findMany_owner)
  have F: "case fst (get_projects s a) of
      Inl err \<Rightarrow> True
    | Inr r \<Rightarrow> list_all (\<lambda>v. project_userId (fst v) = a) r"
    by (auto simp: get_projects_def list_all_iff)
  show ?thesis
    by (intro conjI A B C D E F)
qed


text \<open>
  Bob asks for Alice's task in a store without projects, for Alice's project, and for
  identifiers that nothing has; Alice's list holds her own task.
\<close>

theorem cross_owner_isolation_witness:
  "distinct (map task_id (tasks ex_store)) \<and> ex_active \<in> set (tasks ex_store) \<and>
   userId ex_active \<noteq> ''bob'' \<and> projects ex_store = [] \<and>
   get_task ex_store ''bob'' ''t1'' = (Inl NotFound, ex_store) \<and>
   put_task ex_store ''bob'' ''t1''
      \<lparr>b_title = Some ''Mine now'', b_description = None, b_dueDate = None, b_priority = None,
       b_isComplete = None, b_projectId = None\<rparr> = (Inl NotFound, ex_store) \<and>
   toggle_task ex_store ''bob'' ''t1'' = (Inl NotFound, ex_store) \<and>
   soft_delete_task ex_env ex_store ''bob'' ''t1'' = (Inl NotFound, ex_store) \<and>
   restore_task ex_store ''bob'' ''t1'' = (Inl NotInTrash, ex_store) \<and>
   purge_task ex_store ''bob'' ''t1'' = (Inl NotInTrash, ex_store) \<and>
   ''zz'' \<notin> task_id ` set (tasks ex_store) \<and>
   get_task ex_store ''bob'' ''zz'' = (Inl NotFound, ex_store) \<and>
   put_task ex_store ''bob'' ''zz''
      \<lparr>b_title = Some ''Mine now'', b_description = None, b_dueDate = None, b_priority = None,
       b_isComplete = None, b_projectId = None\<rparr> = (Inl NotFound, ex_store) \<and>
   toggle_task ex_store ''bob'' ''zz'' = (Inl NotFound, ex_store) \<and>
   soft_delete_task ex_env ex_store ''bob'' ''zz'' = (Inl NotFound, ex_store) \<and>
   restore_task ex_store ''bob'' ''zz'' = (Inl NotInTrash, ex_store) \<and>
   purge_task ex_store ''bob'' ''zz'' = (Inl NotInTrash, ex_store) \<and>
   distinct (map project_id (projects ex_linked_store)) \<and>
   ex_project \<in> set (projects ex_linked_store) \<and> project_userId ex_project \<noteq> ''bob'' \<and>
   get_project ex_linked_store ''bob'' ex_uuid = (Inl NotFound, ex_linked_store) \<and>
   put_project ex_linked_store ''bob'' ex_uuid \<lparr>pb_name = Some ''Taken'', pb_color = None\<rparr> =
     (Inl NotFound, ex_linked_store) \<and>
   delete_project ex_linked_store ''bob'' ex_uuid = (Inl NotFound, ex_linked_store) \<and>
   ''yy'' \<notin> project_id ` set (projects ex_store) \<and>
   get_project ex_store ''bob'' ''yy'' = (Inl NotFound, ex_store) \<and>
   put_project ex_store ''bob'' ''yy'' \<lparr>pb_name = Some ''Taken'', pb_color = None\<rparr> =
     (Inl NotFound, ex_store) \<and>
   delete_project ex_store ''bob'' ''yy'' = (Inl NotFound, ex_store) \<and>
   fst (get_tasks ex_env ex_store ''bob'' no_criteria) = Inr [] \<and>
   fst (get_tasks ex_env ex_store ''alice'' no_criteria) = Inr [(ex_active, None)] \<and>
   list_all (\<lambda>v. userId (fst v) = ''alice'') [(ex_active, None :: project_summary option)]"
proof -
  let ?b = "\<lparr>b_title = Some ''Mine now'', b_description = None, b_dueDate = None,
      b_priority = None, b_isComplete = None, b_projectId = None\<rparr>"
  let ?pb = "\<lparr>pb_name = Some ''Taken'', pb_color = None\<rparr>"
  have t: "distinct (map task_id (tasks ex_store)) \<and> ex_active \<in> set (tasks ex_store) \<and>
      userId ex_active \<noteq> ''bob''"
    by (simp add: ex_store_def ex_active_def ex_trashed_def)
  have j: "''zz'' \<notin> task_id ` set (tasks ex_store)"
    by (simp add: ex_store_def ex_active_def ex_trashed_def)
  have p: "distinct (map project_id (projects ex_linked_store)) \<and>
      ex_project \<in> set (projects ex_linked_store) \<and> project_userId ex_project \<noteq> ''bob''"
    by (simp add: ex_linked_store_def ex_project_def)
  have k: "''yy'' \<notin> project_id ` set (projects ex_store)" and np: "projects ex_store = []"
    by (simp_all add: ex_store_def)
  have ids: "task_id ex_active = ''t1''" "project_id ex_project = ex_uuid"
    by (simp_all add: ex_active_def ex_project_def)
  note iso = cross_owner_isolation[where s=ex_store and a="''bob''" and e=ex_env and b="?b"
      and pb="?pb" and t=ex_active and j="''zz''" and k="''yy''" and c=no_criteria]
  note T = iso[THEN conjunct1, THEN mp, OF t, unfolded ids]
  note J = iso[THEN conjunct2, THEN conjunct1, THEN mp, OF j]
  note K = iso[THEN conjunct2, THEN conjunct2, THEN conjunct2, THEN conjunct1, THEN mp, OF k]
  note P = cross_owner_isolation[where s=ex_linked_store and a="''bob''" and pb="?pb"
      and p=ex_project, THEN conjunct2, THEN conjunct2, THEN conjunct1, THEN mp, OF p, unfolded ids]
  note L = cross_owner_isolation[where s=ex_store and a="''alice''" and e=ex_env and c=no_criteria,
      THEN conjunct2, THEN conjunct2, THEN conjunct2, THEN conjunct2, THEN conjunct1]
  have bob: "fst (get_tasks ex_env ex_store ''bob'' no_criteria) = Inr []"
    by (simp add: get_tasks_def build_where_def task_findMany_def matches_def no_criteria_def
        ex_store_def ex_active_def ex_trashed_def Let_def)
  have alice: "fst (get_tasks ex_env ex_store ''alice'' no_criteria) = Inr [(ex_active, None)]"
    by (simp add: get_tasks_def build_where_def task_findMany_def matches_def no_criteria_def
        include_project_def ex_store_def ex_active_def ex_trashed_def Let_def)
  have valid: "\<not> ((case b_title ?b of None \<Rightarrow> False | Some x \<Rightarrow> x = []) \<or>
      (case b_projectId ?b of None \<Rightarrow> False | Some q \<Rightarrow> \<not> isUUID q))"
    "\<not> ((case pb_name ?pb of None \<Rightarrow> False | Some x \<Rightarrow> x = []) \<or>
      (case pb_color ?pb of None \<Rightarrow> False | Some q \<Rightarrow> \<not> is_color q))"
    by simp_all
  from L have own: "list_all (\<lambda>v. userId (fst v) = ''alice'') [(ex_active, None :: project_summary option)]"
    by (simp add: alice)
  show ?thesis
    using t j p k np T J K P bob alice own valid by simp
qed

section \<open>The filtered list\<close>

lemma completed_view_overridden_by_status:
  "build_where e uid (c\<lparr>c_view := Some Completed, c_status := Some Incomplete\<rparr>) =
   build_where e uid (c\<lparr>c_view := None, c_status := Some Incomplete\<rparr>)"
  by (simp add: build_where_def Let_def split: option.splits)

text \<open>
  C1. With \<open>view=completed\<close> and \<open>status=incomplete\<close> the handler assigns
  \<open>where.isComplete\<close> twice; the second assignment replaces the first
  (\<open>completed_view_overridden_by_status\<close>), so the query is the one of the default view
  with \<open>status=incomplete\<close>. On the store of the example the completed view then
  returns a task that is not complete, where the claim expects the empty sequence.
\<close>

theorem completed_view_with_incomplete_status_evaluated:
  "get_tasks ex_env ex_list_store ''alice'' ex_completed_incomplete =
     (Inr [(ex_pending, None)], ex_list_store) \<and>
   \<not> isComplete ex_pending"
  by (simp add: get_tasks_def build_where_def task_findMany_def matches_def include_project_def
      ex_completed_incomplete_def ex_list_store_def ex_active_def ex_trashed_def ex_pending_def
      Let_def)

lemma order_le_spec:
  assumes "order_le a b"
  shows "dueDate_le (dueDate a) (dueDate b) \<and>
         (dueDate a = None \<longrightarrow> dueDate b = None) \<and>
         (dueDate a = dueDate b \<longrightarrow> priority_rank (priority b) \<le> priority_rank (priority a)) \<and>
         (dueDate a = dueDate b \<and> priority a = priority b \<longrightarrow> createdAt b \<le> createdAt a)"
proof -
  have "dueDate_le x x" for x by (cases x) auto
  moreover have "dueDate_le None y \<Longrightarrow> y = None" for y by (cases y) auto
  ultimately show ?thesis
    using assms by (auto simp: order_le_def split: if_splits)
qed

text \<open>
  A sorted list is determined by its elements when no two of them tie. So the list does
  not depend on the order in which the table holds the rows, as long as no two listed
  tasks agree on due date, priority and creation time.
\<close>

lemma sorted_wrt_unique:
  assumes "sorted_wrt R xs" and "sorted_wrt R ys" and "mset xs = mset ys"
    and "\<And>a b. a \<in> set xs \<Longrightarrow> b \<in> set xs \<Longrightarrow> R a b \<Longrightarrow> R b a \<Longrightarrow> a = b"
  shows "xs = ys"
  using assms
proof (induction xs arbitrary: ys)
  case Nil
  then show ?case by simp
next
  case (Cons x xs)
  from Cons.prems(3) obtain y ys' where ys: "ys = y # ys'"
    by (cases ys) auto
  have sets: "set (x # xs) = set (y # ys')"
    using Cons.prems(3) ys by (metis set_mset_mset)
  have "x = y"
  proof (rule ccontr)
    assume ne: "x \<noteq> y"
    with sets have "y \<in> set xs" "x \<in> set ys'" by auto
    then have "R x y" "R y x"
      using Cons.prems(1,2) ys by auto
    moreover have "x \<in> set (x # xs)" "y \<in> set (x # xs)"
      using \<open>y \<in> set xs\<close> by auto
    ultimately have "x = y" using Cons.prems(4) by blast
    with ne show False by simp
  qed
  moreover have "xs = ys'"
  proof (rule Cons.IH)
    show "sorted_wrt R xs" "sorted_wrt R ys'"
      using Cons.prems(1,2) ys by auto
    show "mset xs = mset ys'"
      using Cons.prems(3) ys \<open>x = y\<close> by simp
    show "\<And>a b. a \<in> set xs \<Longrightarrow> b \<in> set xs \<Longrightarrow> R a b \<Longrightarrow> R b a \<Longrightarrow> a = b"
      using Cons.prems(4) by simp
  qed
  ultimately show ?case by (simp add: ys)
qed

lemma order_le_ties:
  "order_le a b \<Longrightarrow> order_le b a \<Longrightarrow>
     dueDate a = dueDate b \<and> priority a = priority b \<and> createdAt a = createdAt b"
  using dueDate_le_antisym[of "dueDate a" "dueDate b"]
  by (auto simp: order_le_def split: if_splits)

lemma findMany_independent_of_table_order:
  assumes "mset (tasks s') = mset (tasks s)"
    and "\<And>a b. a \<in> set (task_findMany w s) \<Longrightarrow> b \<in> set (task_findMany w s) \<Longrightarrow>
           dueDate a = dueDate b \<Longrightarrow> priority a = priority b \<Longrightarrow> createdAt a = createdAt b \<Longrightarrow>
           a = b"
  shows "task_findMany w s' = task_findMany w s"
proof (rule sym, unfold task_findMany_def, rule sorted_wrt_unique[where R = order_le])
  show "sorted_wrt order_le (orderBy (filter (matches w) (tasks s)))"
    "sorted_wrt order_le (orderBy (filter (matches w) (tasks s')))"
    by (rule sorted_orderBy)+
  show "mset (orderBy (filter (matches w) (tasks s))) = mset (orderBy (filter (matches w) (tasks s')))"
    using assms(1) by (simp add: mset_orderBy)
  fix a b
  assume "a \<in> set (orderBy (filter (matches w) (tasks s)))"
    "b \<in> set (orderBy (filter (matches w) (tasks s)))" "order_le a b" "order_le b a"
  then show "a = b"
    using assms(2)[of a b] order_le_ties[of a b] by (simp add: task_findMany_def)
qed

lemma upcoming_excludes_undated:
  assumes "dueDate t = None"
  shows "\<not> matches (build_where e uid (c\<lparr>c_view := Some Upcoming\<rparr>)) t"
proof -
  have "w_AND (build_where e uid (c\<lparr>c_view := Some Upcoming\<rparr>)) =
      Some [IsDeletedIs False, DueDateRange (Some (startOfDay e)) None]"
    by (simp add: build_where_def Let_def split: option.splits status_name.splits)
  then show ?thesis
    using assms by (simp add: matches_def)
qed

text \<open>
  C8 (as the code has it). Whatever the criteria, a successful list leaves the store
  unchanged and holds exactly the tasks that the filter accepts, and for any two tasks
  \<open>a\<close> before \<open>b\<close> in it: the due date of \<open>a\<close> is not later than that of \<open>b\<close>, a
  task without due date is followed only by tasks without due date, on equal due dates
  the priority of \<open>a\<close> is not lower, and on equal due date and priority \<open>a\<close> was not
  created earlier. When no two listed tasks agree on all three keys, the list is the same
  for every store \<open>s'\<close> that holds the same tasks and projects in any table order; the
  three keys fix nothing about the order of tasks that agree on all of them.
\<close>

theorem list_order_three_keys:
  assumes "get_tasks e s uid c = (Inr r, s1)"
  shows "s1 = s \<and>
         mset (map fst r) =
           mset (filter (matches (build_where e uid (c\<lparr>c_search := map_option trim (c_search c)\<rparr>)))
                   (tasks s)) \<and>
         sorted_wrt
           (\<lambda>a b. dueDate_le (dueDate a) (dueDate b) \<and>
                  (dueDate a = None \<longrightarrow> dueDate b = None) \<and>
                  (dueDate a = dueDate b \<longrightarrow>
                     priority_rank (priority b) \<le> priority_rank (priority a)) \<and>
                  (dueDate a = dueDate b \<and> priority a = priority b \<longrightarrow>
                     createdAt b \<le> createdAt a))
           (map fst r) \<and>
         (mset (tasks s') = mset (tasks s) \<and> projects s' = projects s \<and>
          (\<forall>x\<in>set (map fst r). \<forall>y\<in>set (map fst r).
              dueDate x = dueDate y \<and> priority x = priority y \<and> createdAt x = createdAt y \<longrightarrow>
              x = y) \<longrightarrow>
          fst (get_tasks e s' uid c) = Inr r)"
proof -
  define w where "w = build_where e uid (c\<lparr>c_search := map_option trim (c_search c)\<rparr>)"
  from assms have valid: "\<not> (case c_projectId c of None \<Rightarrow> False | Some p \<Rightarrow> \<not> isUUID p)"
    and r: "r = map (include_project s) (task_findMany w s)" and s1: "s1 = s"
    by (auto simp: get_tasks_def Let_def w_def split: if_splits)
  have fst_r: "map fst r = task_findMany w s"
    by (simp add: r include_project_def comp_def)
  have "sorted_wrt order_le (task_findMany w s)"
    by (simp add: task_findMany_def sorted_orderBy)
  then have sorted: "sorted_wrt
           (\<lambda>a b. dueDate_le (dueDate a) (dueDate b) \<and>
                  (dueDate a = None \<longrightarrow> dueDate b = None) \<and>
                  (dueDate a = dueDate b \<longrightarrow>
                     priority_rank (priority b) \<le> priority_rank (priority a)) \<and>
                  (dueDate a = dueDate b \<and> priority a = priority b \<longrightarrow>
                     createdAt b \<le> createdAt a))
           (task_findMany w s)"
    by (rule sorted_wrt_mono_rel[rotated]) (use order_le_spec in blast)
  have perm: "mset (task_findMany w s) = mset (filter (matches w) (tasks s))"
    by (simp add: task_findMany_def mset_orderBy)
  have indep: "fst (get_tasks e s' uid c) = Inr r"
    if same: "mset (tasks s') = mset (tasks s)" and proj: "projects s' = projects s"
      and noties: "\<forall>x\<in>set (map fst r). \<forall>y\<in>set (map fst r).
              dueDate x = dueDate y \<and> priority x = priority y \<and> createdAt x = createdAt y \<longrightarrow>
              x = y"
  proof -
    have "task_findMany w s' = task_findMany w s"
    proof (rule findMany_independent_of_table_order[OF same])
      fix a b
      assume "a \<in> set (task_findMany w s)" "b \<in> set (task_findMany w s)"
        "dueDate a = dueDate b" "priority a = priority b" "createdAt a = createdAt b"
      with noties show "a = b"
        unfolding fst_r by blast
    qed
    moreover have "include_project s' = include_project s"
      by (rule ext) (simp add: include_project_def proj split: option.splits)
    ultimately show ?thesis
      using valid by (simp add: get_tasks_def Let_def r flip: w_def)
  qed
  show ?thesis
    using s1 fst_r sorted perm indep by (simp add: w_def)
qed

lemma ex_order_eval:
  "get_tasks ex_env ex_order_store ''alice'' no_criteria =
     (Inr [(ex_task_e, None), (ex_task_c, None), (ex_task_d, None), (ex_task_a, None),
           (ex_task_b, None)], ex_order_store)"
  by (simp add: get_tasks_def build_where_def task_findMany_def matches_def include_project_def
      no_criteria_def ex_order_store_def ex_task_a_def ex_task_b_def ex_task_c_def ex_task_d_def
      ex_task_e_def order_le_def Let_def)

text \<open>
  Five tasks in the default view. Three are due on 2024-01-01: the two of priority HIGH
  come first, the later created one before the earlier, then the one of priority LOW;
  then the task due on 2024-01-03, and the task without due date last. No two of them tie,
  and the store that holds the same rows in the reverse table order gives the same list.
\<close>

theorem list_order_three_keys_witness:
  "get_tasks ex_env ex_order_store ''alice'' no_criteria =
     (Inr [(ex_task_e, None), (ex_task_c, None), (ex_task_d, None), (ex_task_a, None),
           (ex_task_b, None)], ex_order_store) \<and>
   map (\<lambda>t. (dueDate t, priority t, createdAt t))
       [ex_task_e, ex_task_c, ex_task_d, ex_task_a, ex_task_b] =
     [(Some 1704067200000, HIGH, 5), (Some 1704067200000, HIGH, 3), (Some 1704067200000, LOW, 4),
      (Some 1704240000000, LOW, 1), (None, HIGH, 2)] \<and>
   sorted_wrt
           (\<lambda>a b. dueDate_le (dueDate a) (dueDate b) \<and>
                  (dueDate a = None \<longrightarrow> dueDate b = None) \<and>
                  (dueDate a = dueDate b \<longrightarrow>
                     priority_rank (priority b) \<le> priority_rank (priority a)) \<and>
                  (dueDate a = dueDate b \<and> priority a = priority b \<longrightarrow>
                     createdAt b \<le> createdAt a))
           [ex_task_e, ex_task_c, ex_task_d, ex_task_a, ex_task_b] \<and>
   mset (tasks ex_order_store_shuffled) = mset (tasks ex_order_store) \<and>
   tasks ex_order_store_shuffled \<noteq> tasks ex_order_store \<and>
   fst (get_tasks ex_env ex_order_store_shuffled ''alice'' no_criteria) =
     Inr [(ex_task_e, None), (ex_task_c, None), (ex_task_d, None), (ex_task_a, None),
          (ex_task_b, None)]"
proof -
  note T = list_order_three_keys[OF ex_order_eval, where s'=ex_order_store_shuffled]
  have keys: "map (\<lambda>t. (dueDate t, priority t, createdAt t))
       [ex_task_e, ex_task_c, ex_task_d, ex_task_a, ex_task_b] =
     [(Some 1704067200000, HIGH, 5), (Some 1704067200000, HIGH, 3), (Some 1704067200000, LOW, 4),
      (Some 1704240000000, LOW, 1), (None, HIGH, 2)]"
    by (simp add: ex_task_a_def ex_task_b_def ex_task_c_def ex_task_d_def ex_task_e_def)
  have same: "mset (tasks ex_order_store_shuffled) = mset (tasks ex_order_store)"
    by (simp add: ex_order_store_def ex_order_store_shuffled_def)
  have other: "tasks ex_order_store_shuffled \<noteq> tasks ex_order_store"
    by (simp add: ex_order_store_def ex_order_store_shuffled_def ex_task_a_def ex_task_e_def)
  have proj: "projects ex_order_store_shuffled = projects ex_order_store"
    by (simp add: ex_order_store_def ex_order_store_shuffled_def)
  have noties: "\<forall>x\<in>set (map fst [(ex_task_e, None :: project_summary option), (ex_task_c, None),
        (ex_task_d, None), (ex_task_a, None), (ex_task_b, None)]).
      \<forall>y\<in>set (map fst [(ex_task_e, None :: project_summary option), (ex_task_c, None),
        (ex_task_d, None), (ex_task_a, None), (ex_task_b, None)]).
        dueDate x = dueDate y \<and> priority x = priority y \<and> createdAt x = createdAt y \<longrightarrow> x = y"
    by (simp add: ex_task_a_def ex_task_b_def ex_task_c_def ex_task_d_def ex_task_e_def)
  from T have sorted: "sorted_wrt
           (\<lambda>a b. dueDate_le (dueDate a) (dueDate b) \<and>
                  (dueDate a = None \<longrightarrow> dueDate b = None) \<and>
                  (dueDate a = dueDate b \<longrightarrow>
                     priority_rank (priority b) \<le> priority_rank (priority a)) \<and>
                  (dueDate a = dueDate b \<and> priority a = priority b \<longrightarrow>
                     createdAt b \<le> createdAt a))
           (map fst [(ex_task_e, None :: project_summary option), (ex_task_c, None),
              (ex_task_d, None), (ex_task_a, None), (ex_task_b, None)])"
    by blast
  from T same proj noties
  have indep: "fst (get_tasks ex_env ex_order_store_shuffled ''alice'' no_criteria) =
     Inr [(ex_task_e, None), (ex_task_c, None), (ex_task_d, None), (ex_task_a, None),
          (ex_task_b, None)]"
    by blast
  show ?thesis
    using ex_order_eval keys sorted same other indep by simp
qed

text \<open>
  The statement that the order is determined by the owner, the criteria and the task set
  fails where tasks tie: two tasks with the same due date, priority and creation time
  come back in the order of the table, so two stores with the same tasks give two lists.
\<close>

theorem list_order_ties_counterexample:
  "mset (tasks ex_tie_store) = mset (tasks ex_tie_store_swapped) \<and>
   users ex_tie_store = users ex_tie_store_swapped \<and>
   projects ex_tie_store = projects ex_tie_store_swapped \<and>
   fst (get_tasks ex_env ex_tie_store ''alice'' no_criteria) =
     Inr [(ex_tie1, None), (ex_tie2, None)] \<and>
   fst (get_tasks ex_env ex_tie_store_swapped ''alice'' no_criteria) =
     Inr [(ex_tie2, None), (ex_tie1, None)] \<and>
   ex_tie1 \<noteq> ex_tie2 \<and>
   fst (get_tasks ex_env ex_tie_store ''alice'' no_criteria) \<noteq>
     fst (get_tasks ex_env ex_tie_store_swapped ''alice'' no_criteria)"
  by (simp add: get_tasks_def build_where_def task_findMany_def matches_def include_project_def
      no_criteria_def ex_tie_store_def ex_tie_store_swapped_def ex_tie1_def ex_tie2_def
      order_le_def Let_def)

section \<open>Local login\<close>

lemma find_the_only:
  assumes "u \<in> set xs" and "P u" and "\<And>x. x \<in> set xs \<Longrightarrow> P x \<Longrightarrow> x = u"
  shows "find P xs = Some u"
  using assms(1,3)
proof (induction xs)
  case Nil
  then show ?case by simp
next
  case (Cons a xs)
  show ?case
  proof (cases "P a")
    case True
    then have "a = u" using Cons.prems(2)[of a] by simp
    with True show ?thesis by simp
  next
    case False
    with assms(2) have "a \<noteq> u" by blast
    with Cons.prems(1) have "u \<in> set xs" by simp
    moreover have "\<And>x. x \<in> set xs \<Longrightarrow> P x \<Longrightarrow> x = u"
      using Cons.prems(2) by simp
    ultimately have "find P xs = Some u" by (rule Cons.IH)
    with False show ?thesis by simp
  qed
qed

lemma find_by_email:
  assumes "user_constraints us" and "u \<in> set us"
  shows "find (\<lambda>x. email x = email u) us = Some u"
proof (rule find_the_only[OF assms(2)])
  from assms(1) have inj: "inj_on email (set us)"
    by (simp add: user_constraints_def distinct_map)
  fix x assume "x \<in> set us" "email x = email u"
  with inj assms(2) show "x = u"
    by (simp add: inj_on_def)
qed simp

text \<open>
  C9. The local strategy looks the user up by the lower-cased address. No such user:
  \<open>Invalid credentials\<close>. A user without a password hash (null, or the empty string,
  which JavaScript also takes for false): \<open>Please use Google login\<close>. A hash that the
  password does not verify against: \<open>Invalid credentials\<close>. Otherwise the projection
  \<open>{ id, email, name, avatar }\<close>, a record that has no field for the hash.
\<close>

theorem local_login_outcomes:
  assumes "user_constraints (users s)"
  shows "(toLowerCase em \<notin> email ` set (users s) \<longrightarrow>
            local_strategy compare s em pw = Inl InvalidCredentials) \<and>
         (u \<in> set (users s) \<and> email u = toLowerCase em \<longrightarrow>
            (password u = None \<or> password u = Some [] \<longrightarrow>
               local_strategy compare s em pw = Inl PasswordLoginUnavailable) \<and>
            (\<forall>h. password u = Some h \<and> h \<noteq> [] \<and> \<not> compare pw h \<longrightarrow>
               local_strategy compare s em pw = Inl InvalidCredentials) \<and>
            (\<forall>h. password u = Some h \<and> h \<noteq> [] \<and> compare pw h \<longrightarrow>
               local_strategy compare s em pw =
                 Inr \<lparr>pu_id = user_id u, pu_email = email u, pu_name = user_name u,
                      pu_avatar = avatar u\<rparr>))"
proof -
  have none: "local_strategy compare s em pw = Inl InvalidCredentials"
    if "toLowerCase em \<notin> email ` set (users s)"
  proof -
    from that have "\<And>x. x \<in> set (users s) \<Longrightarrow> email x \<noteq> toLowerCase em"
      by (metis imageI)
    then have "user_findUnique (\<lambda>x. email x = toLowerCase em) s = None"
      by (simp add: user_findUnique_def find_None_iff)
    then show ?thesis
      by (simp add: local_strategy_def)
  qed
  have some: "(password u = None \<or> password u = Some [] \<longrightarrow>
               local_strategy compare s em pw = Inl PasswordLoginUnavailable) \<and>
            (\<forall>h. password u = Some h \<and> h \<noteq> [] \<and> \<not> compare pw h \<longrightarrow>
               local_strategy compare s em pw = Inl InvalidCredentials) \<and>
            (\<forall>h. password u = Some h \<and> h \<noteq> [] \<and> compare pw h \<longrightarrow>
               local_strategy compare s em pw =
                 Inr \<lparr>pu_id = user_id u, pu_email = email u, pu_name = user_name u,
                      pu_avatar = avatar u\<rparr>)"
    if u: "u \<in> set (users s)" "email u = toLowerCase em"
  proof -
    have "user_findUnique (\<lambda>x. email x = toLowerCase em) s = Some u"
      using find_by_email[OF assms u(1)] u(2) by (simp add: user_findUnique_def)
    then have "password u = None \<or> password u = Some [] \<Longrightarrow>
        local_strategy compare s em pw = Inl PasswordLoginUnavailable"
      and "\<And>h. password u = Some h \<Longrightarrow> h \<noteq> [] \<Longrightarrow> \<not> compare pw h \<Longrightarrow>
        local_strategy compare s em pw = Inl InvalidCredentials"
      and "\<And>h. password u = Some h \<Longrightarrow> h \<noteq> [] \<Longrightarrow> compare pw h \<Longrightarrow>
        local_strategy compare s em pw =
          Inr \<lparr>pu_id = user_id u, pu_email = email u, pu_name = user_name u, pu_avatar = avatar u\<rparr>"
      by (auto simp: local_strategy_def)
    then show ?thesis
      by blast
  qed
  show ?thesis
  proof (rule conjI)
    show "toLowerCase em \<notin> email ` set (users s) \<longrightarrow>
        local_strategy compare s em pw = Inl InvalidCredentials"
      using none by (rule impI)
    show "u \<in> set (users s) \<and> email u = toLowerCase em \<longrightarrow>
            (password u = None \<or> password u = Some [] \<longrightarrow>
               local_strategy compare s em pw = Inl PasswordLoginUnavailable) \<and>
            (\<forall>h. password u = Some h \<and> h \<noteq> [] \<and> \<not> compare pw h \<longrightarrow>
               local_strategy compare s em pw = Inl InvalidCredentials) \<and>
            (\<forall>h. password u = Some h \<and> h \<noteq> [] \<and> compare pw h \<longrightarrow>
               local_strategy compare s em pw =
                 Inr \<lparr>pu_id = user_id u, pu_email = email u, pu_name = user_name u,
                      pu_avatar = avatar u\<rparr>)"
      using some by (intro impI) (elim conjE)
  qed
qed

lemma ex_user_constraints: "user_constraints (users ex_user_store)"
  by (simp add: user_constraints_def ex_user_store_def ex_local_user_def ex_oauth_user_def
      List.map_filter_simps)

lemma ex_lower: "toLowerCase ''Ann@Example.com'' = ''ann@example.com''"
  "toLowerCase ''bob@example.com'' = ''bob@example.com''"
  "toLowerCase ''eve@example.com'' = ''eve@example.com''"
  by (simp_all add: toLowerCase_def lower_char_def char_of_def bit_0)

text \<open>
  An unknown address, an account created through Google, a wrong and a right password.
\<close>

theorem local_login_outcomes_witness:
  "user_constraints (users ex_user_store) \<and>
   local_strategy ex_compare ex_user_store ''eve@example.com'' ''secret1'' = Inl InvalidCredentials \<and>
   local_strategy ex_compare ex_user_store ''bob@example.com'' ''secret1'' = Inl PasswordLoginUnavailable \<and>
   local_strategy ex_compare ex_user_store ''Ann@Example.com'' ''wrong'' = Inl InvalidCredentials \<and>
   local_strategy ex_compare ex_user_store ''Ann@Example.com'' ''secret1'' =
     Inr \<lparr>pu_id = ''u1'', pu_email = ''ann@example.com'', pu_name = ''Ann'', pu_avatar = None\<rparr>"
proof -
  note c = ex_user_constraints
  have mem: "ex_local_user \<in> set (users ex_user_store)" "ex_oauth_user \<in> set (users ex_user_store)"
    by (simp_all add: ex_user_store_def)
  have absent: "toLowerCase ''eve@example.com'' \<notin> email ` set (users ex_user_store)"
    by (simp add: ex_lower ex_user_store_def ex_local_user_def ex_oauth_user_def)
  have bob: "email ex_oauth_user = toLowerCase ''bob@example.com''" "password ex_oauth_user = None"
    by (simp_all add: ex_lower ex_oauth_user_def)
  have ann: "email ex_local_user = toLowerCase ''Ann@Example.com''"
    "password ex_local_user = Some ''hash:secret1''" "''hash:secret1'' \<noteq> []"
    "\<not> ex_compare ''wrong'' ''hash:secret1''" "ex_compare ''secret1'' ''hash:secret1''"
    by (simp_all add: ex_lower ex_local_user_def ex_compare_def)
  have A: "local_strategy ex_compare ex_user_store ''eve@example.com'' ''secret1'' = Inl InvalidCredentials"
    using local_login_outcomes[OF c, of "''eve@example.com''" ex_compare "''secret1''", THEN conjunct1]
      absent by (rule mp)
  have B: "local_strategy ex_compare ex_user_store ''bob@example.com'' ''secret1'' =
      Inl PasswordLoginUnavailable"
    using local_login_outcomes[OF c, of "''bob@example.com''" ex_compare "''secret1''" ex_oauth_user,
        THEN conjunct2] mem(2) bob by blast
  have C: "local_strategy ex_compare ex_user_store ''Ann@Example.com'' ''wrong'' = Inl InvalidCredentials"
    using local_login_outcomes[OF c, of "''Ann@Example.com''" ex_compare "''wrong''" ex_local_user,
        THEN conjunct2] mem(1) ann by blast
  have D: "local_strategy ex_compare ex_user_store ''Ann@Example.com'' ''secret1'' =
     Inr \<lparr>pu_id = user_id ex_local_user, pu_email = email ex_local_user,
          pu_name = user_name ex_local_user, pu_avatar = avatar ex_local_user\<rparr>"
    using local_login_outcomes[OF c, of "''Ann@Example.com''" ex_compare "''secret1''" ex_local_user,
        THEN conjunct2] mem(1) ann by blast
  have E: "\<lparr>pu_id = user_id ex_local_user, pu_email = email ex_local_user,
          pu_name = user_name ex_local_user, pu_avatar = avatar ex_local_user\<rparr> =
      \<lparr>pu_id = ''u1'', pu_email = ''ann@example.com'', pu_name = ''Ann'', pu_avatar = None\<rparr>"
    by (simp add: ex_local_user_def)
  show ?thesis
    using c A B C D unfolding E by (intro conjI)
qed

section \<open>OAuth login\<close>

lemma set_avatar_fields:
  "user_id (set_avatar a u) = user_id u" "email (set_avatar a u) = email u"
  "googleId (set_avatar a u) = googleId u" "password (set_avatar a u) = password u"
  "user_name (set_avatar a u) = user_name u"
  "avatar (set_avatar a u) = (case a of None \<Rightarrow> avatar u | Some x \<Rightarrow> Some x)"
  by (simp_all add: set_avatar_def split: option.splits)

lemma constraints_distinct: "user_constraints us \<Longrightarrow> distinct us"
  by (simp add: user_constraints_def distinct_map)

lemma only_google:
  assumes "user_constraints us" and "u \<in> set us" and "googleId u = Some g"
    and "x \<in> set us" and "googleId x = Some g"
  shows "x = u"
proof -
  from assms(1) have "inj_on (the \<circ> googleId) (set (filter (\<lambda>x. googleId x \<noteq> None) us))"
    by (simp add: user_constraints_def List.map_filter_def distinct_map)
  moreover have "x \<in> set (filter (\<lambda>x. googleId x \<noteq> None) us)"
    "u \<in> set (filter (\<lambda>x. googleId x \<noteq> None) us)"
    using assms(2-5) by simp_all
  moreover have "(the \<circ> googleId) x = (the \<circ> googleId) u"
    using assms(3,5) by simp
  ultimately show ?thesis
    by (meson inj_onD)
qed

lemma find_by_google:
  assumes "user_constraints us" and "u \<in> set us" and "googleId u = Some g"
  shows "find (\<lambda>x. googleId x = Some g) us = Some u"
  using assms(2,3) only_google[OF assms] by (rule find_the_only)

lemma replace_split:
  assumes "distinct us" and "u \<in> set us"
  obtains xs ys where "us = xs @ u # ys" and "u \<notin> set xs" and "u \<notin> set ys"
    and "map (\<lambda>x. if x = u then u' else x) us = xs @ u' # ys"
proof -
  from assms(2) obtain xs ys where us: "us = xs @ u # ys"
    by (meson split_list)
  with assms(1) have nin: "u \<notin> set xs" "u \<notin> set ys" by auto
  have "map (\<lambda>x. if x = u then u' else x) xs = xs" "map (\<lambda>x. if x = u then u' else x) ys = ys"
    using nin by (auto intro!: map_idI)
  then have "map (\<lambda>x. if x = u then u' else x) us = xs @ u' # ys"
    by (simp add: us)
  with us nin show ?thesis by (rule that)
qed

lemma constraints_replace:
  assumes c: "user_constraints us" and u: "u \<in> set us" and id: "user_id u' = user_id u"
    and em: "\<And>x. x \<in> set us \<Longrightarrow> x \<noteq> u \<Longrightarrow> email x \<noteq> email u'"
    and g: "\<And>x. x \<in> set us \<Longrightarrow> x \<noteq> u \<Longrightarrow> googleId u' \<noteq> None \<Longrightarrow> googleId x \<noteq> googleId u'"
  shows "user_constraints (map (\<lambda>x. if x = u then u' else x) us)"
proof -
  from constraints_distinct[OF c] u obtain xs ys where us: "us = xs @ u # ys"
    and nin: "u \<notin> set xs" "u \<notin> set ys"
    and m: "map (\<lambda>x. if x = u then u' else x) us = xs @ u' # ys"
    by (rule replace_split)
  have others: "x \<in> set us \<and> x \<noteq> u" if "x \<in> set xs \<union> set ys" for x
    using that nin by (auto simp: us)
  have e1: "email u' \<notin> email ` (set xs \<union> set ys)"
  proof
    assume "email u' \<in> email ` (set xs \<union> set ys)"
    then obtain x where "x \<in> set xs \<union> set ys" "email x = email u'" by force
    with others em show False by blast
  qed
  have g1: "the (googleId u') \<notin> (the \<circ> googleId) ` {x \<in> set xs \<union> set ys. googleId x \<noteq> None}"
    if "googleId u' \<noteq> None"
  proof
    assume "the (googleId u') \<in> (the \<circ> googleId) ` {x \<in> set xs \<union> set ys. googleId x \<noteq> None}"
    then obtain x where x: "x \<in> set xs \<union> set ys" "googleId x \<noteq> None"
      "the (googleId x) = the (googleId u')" by force
    with that have "googleId x = googleId u'" by (metis option.expand)
    with others[OF x(1)] g that show False by blast
  qed
  from c have ids: "distinct (map user_id (xs @ u # ys))" and ems: "distinct (map email (xs @ u # ys))"
    and gs: "distinct (map (the \<circ> googleId) (filter (\<lambda>x. googleId x \<noteq> None) (xs @ u # ys)))"
    by (simp_all add: user_constraints_def List.map_filter_def us)
  have "distinct (map user_id (xs @ u' # ys))"
    using ids id by simp
  moreover have "distinct (map email (xs @ u' # ys))"
    using ems e1 by (simp add: image_Un)
  moreover have "distinct (map (the \<circ> googleId) (filter (\<lambda>x. googleId x \<noteq> None) (xs @ u' # ys)))"
  proof (cases "googleId u' = None")
    case True
    with gs show ?thesis by (cases "googleId u = None") simp_all
  next
    case False
    with g1 have "the (googleId u') \<notin> (the \<circ> googleId) ` {x \<in> set xs. googleId x \<noteq> None}"
      "the (googleId u') \<notin> (the \<circ> googleId) ` {x \<in> set ys. googleId x \<noteq> None}"
      by auto
    with gs False show ?thesis
      by (cases "googleId u = None") (simp_all add: comp_def)
  qed
  ultimately show ?thesis
    by (simp add: user_constraints_def List.map_filter_def m)
qed

lemma constraints_clash:
  assumes c: "user_constraints us" and u: "u \<in> set us" and id: "user_id u' = user_id u"
    and x: "x \<in> set us" "x \<noteq> u" "email x = email u'"
  shows "\<not> user_constraints (map (\<lambda>x. if x = u then u' else x) us)"
proof
  let ?us' = "map (\<lambda>x. if x = u then u' else x) us"
  assume "user_constraints ?us'"
  then have "distinct (map email ?us')"
    unfolding user_constraints_def by blast
  then have inj: "inj_on email (set ?us')"
    unfolding distinct_map by blast
  from c have "inj_on user_id (set us)"
    by (simp add: user_constraints_def distinct_map)
  with u x(1,2) have "user_id x \<noteq> user_id u" by (meson inj_onD)
  with id have "x \<noteq> u'" by auto
  moreover have "x \<in> set ?us'" "u' \<in> set ?us'"
    using x(1,2) u by auto
  ultimately show False
    using inj x(3) by (meson inj_onD)
qed

lemma map_by_key:
  assumes "\<And>x. x \<in> set us \<Longrightarrow> P x \<longleftrightarrow> x = u"
  shows "map (\<lambda>x. if P x then f x else x) us = map (\<lambda>x. if x = u then f u else x) us"
  using assms by (intro map_cong) auto

lemma google_known_id:
  assumes c: "user_constraints (users s)" and u: "u \<in> set (users s)"
    and g: "googleId u = Some (profile_id p)" and em: "emails p = em # rest"
  shows "google_strategy e s p =
     (if \<exists>x\<in>set (users s). x \<noteq> u \<and> email x = em then (Inl StorageError, s)
      else (Inr (set_avatar (first_photo p) (u\<lparr>user_name := displayName p, email := em\<rparr>)),
            s\<lparr>users := map (\<lambda>x. if x = u
                                 then set_avatar (first_photo p) (u\<lparr>user_name := displayName p, email := em\<rparr>)
                                 else x) (users s)\<rparr>))"
proof -
  define f where "f = (\<lambda>x. set_avatar (first_photo p) (x\<lparr>user_name := displayName p, email := em\<rparr>))"
  have found: "find (\<lambda>x. googleId x = Some (profile_id p)) (users s) = Some u"
    using c u g by (rule find_by_google)
  have key: "googleId x = Some (profile_id p) \<longleftrightarrow> x = u" if "x \<in> set (users s)" for x
    using only_google[OF c u g that] g by blast
  have m: "map (\<lambda>x. if googleId x = Some (profile_id p) then f x else x) (users s) =
      map (\<lambda>x. if x = u then f u else x) (users s)"
    using key by (rule map_by_key)
  have fu: "user_id (f u) = user_id u" "email (f u) = em" "googleId (f u) = googleId u"
    by (simp_all add: f_def set_avatar_fields)
  have upd: "user_update (\<lambda>x. googleId x = Some (profile_id p)) f s =
      (if user_constraints (map (\<lambda>x. if x = u then f u else x) (users s))
       then Some (f u, s\<lparr>users := map (\<lambda>x. if x = u then f u else x) (users s)\<rparr>) else None)"
    by (simp add: user_update_def found m Let_def)
  show ?thesis
  proof (cases "\<exists>x\<in>set (users s). x \<noteq> u \<and> email x = em")
    case True
    then obtain x where "x \<in> set (users s)" "x \<noteq> u" "email x = email (f u)"
      using fu(2) by auto
    with c u fu(1) have "\<not> user_constraints (map (\<lambda>x. if x = u then f u else x) (users s))"
      by (intro constraints_clash)
    with True show ?thesis
      using found em upd by (simp add: google_strategy_def user_findUnique_def f_def)
  next
    case False
    have "user_constraints (map (\<lambda>x. if x = u then f u else x) (users s))"
    proof (rule constraints_replace[OF c u fu(1)])
      fix x assume "x \<in> set (users s)" "x \<noteq> u"
      with False show "email x \<noteq> email (f u)" by (auto simp: fu)
    next
      fix x assume "x \<in> set (users s)" "x \<noteq> u"
      with key g show "googleId x \<noteq> googleId (f u)" by (simp add: fu)
    qed
    with False show ?thesis
      using found em upd by (simp add: google_strategy_def user_findUnique_def f_def)
  qed
qed

lemma google_known_email:
  assumes c: "user_constraints (users s)"
    and nog: "\<And>x. x \<in> set (users s) \<Longrightarrow> googleId x \<noteq> Some (profile_id p)"
    and u: "u \<in> set (users s)" and ue: "email u = em" and em: "emails p = em # rest"
  shows "google_strategy e s p =
     (Inr (set_avatar (first_photo p) (u\<lparr>googleId := Some (profile_id p), user_name := displayName p\<rparr>)),
      s\<lparr>users := map (\<lambda>x. if x = u
                           then set_avatar (first_photo p)
                                  (u\<lparr>googleId := Some (profile_id p), user_name := displayName p\<rparr>)
                           else x) (users s)\<rparr>)"
proof -
  define f where "f = (\<lambda>x. set_avatar (first_photo p)
      (x\<lparr>googleId := Some (profile_id p), user_name := displayName p\<rparr>))"
  have none: "find (\<lambda>x. googleId x = Some (profile_id p)) (users s) = None"
    using nog by (simp add: find_None_iff)
  have found: "find (\<lambda>x. email x = em) (users s) = Some u"
    using find_by_email[OF c u] ue by simp
  have inj: "inj_on email (set (users s))"
    using c by (simp add: user_constraints_def distinct_map)
  have key: "email x = em \<longleftrightarrow> x = u" if "x \<in> set (users s)" for x
    using inj that u ue by (meson inj_onD)
  have m: "map (\<lambda>x. if email x = em then f x else x) (users s) =
      map (\<lambda>x. if x = u then f u else x) (users s)"
    using key by (rule map_by_key)
  have fu: "user_id (f u) = user_id u" "email (f u) = email u" "googleId (f u) = Some (profile_id p)"
    by (simp_all add: f_def set_avatar_fields)
  have "user_constraints (map (\<lambda>x. if x = u then f u else x) (users s))"
  proof (rule constraints_replace[OF c u fu(1)])
    fix x assume "x \<in> set (users s)" "x \<noteq> u"
    with key ue show "email x \<noteq> email (f u)" by (simp add: fu)
  next
    fix x assume "x \<in> set (users s)" "x \<noteq> u"
    with nog show "googleId x \<noteq> googleId (f u)" by (simp add: fu)
  qed
  then have "user_update (\<lambda>x. email x = em) f s =
      Some (f u, s\<lparr>users := map (\<lambda>x. if x = u then f u else x) (users s)\<rparr>)"
    by (simp add: user_update_def found m Let_def)
  then show ?thesis
    using none found em by (simp add: google_strategy_def user_findUnique_def f_def)
qed

lemma google_new:
  assumes c: "user_constraints (users s)"
    and nog: "\<And>x. x \<in> set (users s) \<Longrightarrow> googleId x \<noteq> Some (profile_id p)"
    and noe: "\<And>x. x \<in> set (users s) \<Longrightarrow> email x \<noteq> em"
    and em: "emails p = em # rest" and fresh: "fresh_id e \<notin> user_id ` set (users s)"
  shows "google_strategy e s p =
     (Inr \<lparr>user_id = fresh_id e, email = em, password = None, googleId = Some (profile_id p),
           user_name = displayName p, avatar = first_photo p, user_createdAt = now e\<rparr>,
      s\<lparr>users := users s @
           [\<lparr>user_id = fresh_id e, email = em, password = None, googleId = Some (profile_id p),
             user_name = displayName p, avatar = first_photo p, user_createdAt = now e\<rparr>]\<rparr>)"
proof -
  have none: "find (\<lambda>x. googleId x = Some (profile_id p)) (users s) = None"
    "find (\<lambda>x. email x = em) (users s) = None"
    using nog noe by (simp_all add: find_None_iff)
  have e1: "em \<notin> email ` set (users s)"
    using noe by blast
  have g1: "profile_id p \<notin> (the \<circ> googleId) ` {x \<in> set (users s). googleId x \<noteq> None}"
  proof
    assume "profile_id p \<in> (the \<circ> googleId) ` {x \<in> set (users s). googleId x \<noteq> None}"
    then obtain x where "x \<in> set (users s)" "googleId x \<noteq> None" "the (googleId x) = profile_id p"
      by force
    then have "x \<in> set (users s)" "googleId x = Some (profile_id p)" by auto
    with nog show False by blast
  qed
  have "user_constraints (users s @
           [\<lparr>user_id = fresh_id e, email = em, password = None, googleId = Some (profile_id p),
             user_name = displayName p, avatar = first_photo p, user_createdAt = now e\<rparr>])"
    using c fresh e1 g1 by (simp add: user_constraints_def List.map_filter_def)
  then show ?thesis
    using none em by (simp add: google_strategy_def user_findUnique_def user_create_def Let_def)
qed

text \<open>
  C6 (as the code has it). For a profile that carries an e-mail address \<open>em\<close>, on a
  store that satisfies the uniqueness constraints:
  \<^item> a user with the profile's Google id is found first. If no other account has the
    address \<open>em\<close>, the user's name and address are set from the profile, the avatar
    is set when the profile has a photo and kept otherwise, and the updated user is
    returned; if another account has the address, the update throws, the login fails and
    the store is unchanged;
  \<^item> otherwise a user whose address is exactly \<open>em\<close> gets the Google id, the name and
    (when there is a photo) the avatar of the profile, and keeps its password hash;
  \<^item> otherwise a new user is created with the Google id, the profile's address, name
    and photo, and no password.
\<close>

theorem oauth_resolution_order:
  assumes "user_constraints (users s)" and "emails p = em # rest"
  shows "(u \<in> set (users s) \<and> googleId u = Some (profile_id p) \<longrightarrow>
            google_strategy e s p =
              (if \<exists>x\<in>set (users s). x \<noteq> u \<and> email x = em then (Inl StorageError, s)
               else (Inr (set_avatar (first_photo p) (u\<lparr>user_name := displayName p, email := em\<rparr>)),
                     s\<lparr>users := map (\<lambda>x. if x = u
                                          then set_avatar (first_photo p)
                                                 (u\<lparr>user_name := displayName p, email := em\<rparr>)
                                          else x) (users s)\<rparr>))) \<and>
         ((\<forall>x\<in>set (users s). googleId x \<noteq> Some (profile_id p)) \<and>
          u \<in> set (users s) \<and> email u = em \<longrightarrow>
            google_strategy e s p =
              (Inr (set_avatar (first_photo p)
                      (u\<lparr>googleId := Some (profile_id p), user_name := displayName p\<rparr>)),
               s\<lparr>users := map (\<lambda>x. if x = u
                                    then set_avatar (first_photo p)
                                           (u\<lparr>googleId := Some (profile_id p), user_name := displayName p\<rparr>)
                                    else x) (users s)\<rparr>) \<and>
            password (set_avatar (first_photo p)
                        (u\<lparr>googleId := Some (profile_id p), user_name := displayName p\<rparr>)) = password u) \<and>
         ((\<forall>x\<in>set (users s). googleId x \<noteq> Some (profile_id p) \<and> email x \<noteq> em) \<and>
          fresh_id e \<notin> user_id ` set (users s) \<longrightarrow>
            google_strategy e s p =
              (Inr \<lparr>user_id = fresh_id e, email = em, password = None, googleId = Some (profile_id p),
                    user_name = displayName p, avatar = first_photo p, user_createdAt = now e\<rparr>,
               s\<lparr>users := users s @
                    [\<lparr>user_id = fresh_id e, email = em, password = None,
                      googleId = Some (profile_id p), user_name = displayName p,
                      avatar = first_photo p, user_createdAt = now e\<rparr>]\<rparr>))"
proof (intro conjI)
  show "u \<in> set (users s) \<and> googleId u = Some (profile_id p) \<longrightarrow>
            google_strategy e s p =
              (if \<exists>x\<in>set (users s). x \<noteq> u \<and> email x = em then (Inl StorageError, s)
               else (Inr (set_avatar (first_photo p) (u\<lparr>user_name := displayName p, email := em\<rparr>)),
                     s\<lparr>users := map (\<lambda>x. if x = u
                                          then set_avatar (first_photo p)
                                                 (u\<lparr>user_name := displayName p, email := em\<rparr>)
                                          else x) (users s)\<rparr>))"
    using google_known_id[OF assms(1) _ _ assms(2)] by blast
  show "(\<forall>x\<in>set (users s). googleId x \<noteq> Some (profile_id p)) \<and>
          u \<in> set (users s) \<and> email u = em \<longrightarrow>
            google_strategy e s p =
              (Inr (set_avatar (first_photo p)
                      (u\<lparr>googleId := Some (profile_id p), user_name := displayName p\<rparr>)),
               s\<lparr>users := map (\<lambda>x. if x = u
                                    then set_avatar (first_photo p)
                                           (u\<lparr>googleId := Some (profile_id p), user_name := displayName p\<rparr>)
                                    else x) (users s)\<rparr>) \<and>
            password (set_avatar (first_photo p)
                        (u\<lparr>googleId := Some (profile_id p), user_name := displayName p\<rparr>)) = password u"
  proof (intro impI conjI)
    assume h: "(\<forall>x\<in>set (users s). googleId x \<noteq> Some (profile_id p)) \<and>
          u \<in> set (users s) \<and> email u = em"
    then have "\<And>x. x \<in> set (users s) \<Longrightarrow> googleId x \<noteq> Some (profile_id p)"
      and "u \<in> set (users s)" and "email u = em"
      by simp_all
    with assms(1) show "google_strategy e s p =
              (Inr (set_avatar (first_photo p)
                      (u\<lparr>googleId := Some (profile_id p), user_name := displayName p\<rparr>)),
               s\<lparr>users := map (\<lambda>x. if x = u
                                    then set_avatar (first_photo p)
                                           (u\<lparr>googleId := Some (profile_id p), user_name := displayName p\<rparr>)
                                    else x) (users s)\<rparr>)"
      using assms(2) by (rule google_known_email)
  next
    show "password (set_avatar (first_photo p)
                        (u\<lparr>googleId := Some (profile_id p), user_name := displayName p\<rparr>)) = password u"
      by (simp add: set_avatar_fields)
  qed
  show "(\<forall>x\<in>set (users s). googleId x \<noteq> Some (profile_id p) \<and> email x \<noteq> em) \<and>
          fresh_id e \<notin> user_id ` set (users s) \<longrightarrow>
            google_strategy e s p =
              (Inr \<lparr>user_id = fresh_id e, email = em, password = None, googleId = Some (profile_id p),
                    user_name = displayName p, avatar = first_photo p, user_createdAt = now e\<rparr>,
               s\<lparr>users := users s @
                    [\<lparr>user_id = fresh_id e, email = em, password = None,
                      googleId = Some (profile_id p), user_name = displayName p,
                      avatar = first_photo p, user_createdAt = now e\<rparr>]\<rparr>)"
  proof
    assume h: "(\<forall>x\<in>set (users s). googleId x \<noteq> Some (profile_id p) \<and> email x \<noteq> em) \<and>
          fresh_id e \<notin> user_id ` set (users s)"
    then have A: "\<And>x. x \<in> set (users s) \<Longrightarrow> googleId x \<noteq> Some (profile_id p)"
      and B: "\<And>x. x \<in> set (users s) \<Longrightarrow> email x \<noteq> em"
      and C: "fresh_id e \<notin> user_id ` set (users s)"
      by simp_all
    show "google_strategy e s p =
              (Inr \<lparr>user_id = fresh_id e, email = em, password = None, googleId = Some (profile_id p),
                    user_name = displayName p, avatar = first_photo p, user_createdAt = now e\<rparr>,
               s\<lparr>users := users s @
                    [\<lparr>user_id = fresh_id e, email = em, password = None,
                      googleId = Some (profile_id p), user_name = displayName p,
                      avatar = first_photo p, user_createdAt = now e\<rparr>]\<rparr>)"
      by (rule google_new[OF assms(1) A B assms(2) C])
  qed
qed

text \<open>
  The claim that a user found by Google id is always refreshed from the profile and
  returned fails in two ways. When the profile's address belongs to another account the
  login ends in an error and nothing is refreshed; when the profile has no photo the
  stored avatar stays, though the profile has none.
\<close>

theorem oauth_refresh_counterexample:
  "googleId ex_oauth_user = Some (profile_id ex_profile_clash) \<and>
   google_strategy ex_env ex_user_store ex_profile_clash = (Inl StorageError, ex_user_store) \<and>
   googleId ex_oauth_user = Some (profile_id ex_profile_nophoto) \<and>
   first_photo ex_profile_nophoto = None \<and>
   google_strategy ex_env ex_user_store ex_profile_nophoto =
     (Inr (ex_oauth_user\<lparr>user_name := ''Robert''\<rparr>),
      ex_user_store\<lparr>users := [ex_local_user, ex_oauth_user\<lparr>user_name := ''Robert''\<rparr>]\<rparr>) \<and>
   avatar (ex_oauth_user\<lparr>user_name := ''Robert''\<rparr>) = Some ''http://img/bob.png''"
  by (simp add: google_strategy_def user_findUnique_def user_update_def user_constraints_def
      set_avatar_def first_photo_def Let_def
      ex_profile_clash_def ex_profile_nophoto_def ex_user_store_def ex_local_user_def
      ex_oauth_user_def)

text \<open>
  The three branches on the example store: Bob is found by Google id and refreshed, Ann
  is found by address and linked while keeping her password hash, Eve is created.
\<close>

theorem oauth_resolution_order_witness:
  "user_constraints (users ex_user_store) \<and>
   google_strategy ex_env ex_user_store ex_profile_bob =
     (Inr (ex_oauth_user\<lparr>email := ''rob@example.com'', user_name := ''Robert'',
                          avatar := Some ''http://img/new.png''\<rparr>),
      ex_user_store\<lparr>users :=
        [ex_local_user,
         ex_oauth_user\<lparr>email := ''rob@example.com'', user_name := ''Robert'',
                        avatar := Some ''http://img/new.png''\<rparr>]\<rparr>) \<and>
   google_strategy ex_env ex_user_store ex_profile_ann =
     (Inr (ex_local_user\<lparr>googleId := Some ''g-ann'', user_name := ''Ann B'',
                          avatar := Some ''http://img/ann.png''\<rparr>),
      ex_user_store\<lparr>users :=
        [ex_local_user\<lparr>googleId := Some ''g-ann'', user_name := ''Ann B'',
                        avatar := Some ''http://img/ann.png''\<rparr>,
         ex_oauth_user]\<rparr>) \<and>
   password (ex_local_user\<lparr>googleId := Some ''g-ann'', user_name := ''Ann B'',
                            avatar := Some ''http://img/ann.png''\<rparr>) = Some ''hash:secret1'' \<and>
   google_strategy ex_env ex_user_store ex_profile_eve =
     (Inr \<lparr>user_id = ''n1'', email = ''eve@example.com'', password = None,
           googleId = Some ''g-eve'', user_name = ''Eve'', avatar = None, user_createdAt = 1000\<rparr>,
      ex_user_store\<lparr>users :=
        [ex_local_user, ex_oauth_user,
         \<lparr>user_id = ''n1'', email = ''eve@example.com'', password = None,
          googleId = Some ''g-eve'', user_name = ''Eve'', avatar = None, user_createdAt = 1000\<rparr>]\<rparr>)"
proof -
  note c = ex_user_constraints
  have ne: "ex_local_user \<noteq> ex_oauth_user"
    by (simp add: ex_local_user_def ex_oauth_user_def)
  have us: "users ex_user_store = [ex_local_user, ex_oauth_user]"
    by (simp add: ex_user_store_def)
  have bob: "emails ex_profile_bob = ''rob@example.com'' # []"
    "ex_oauth_user \<in> set (users ex_user_store) \<and> googleId ex_oauth_user = Some (profile_id ex_profile_bob)"
    "\<not> (\<exists>x\<in>set (users ex_user_store). x \<noteq> ex_oauth_user \<and> email x = ''rob@example.com'')"
    by (simp_all add: us ex_profile_bob_def ex_oauth_user_def ex_local_user_def)
  have ann: "emails ex_profile_ann = ''ann@example.com'' # []"
    "(\<forall>x\<in>set (users ex_user_store). googleId x \<noteq> Some (profile_id ex_profile_ann)) \<and>
     ex_local_user \<in> set (users ex_user_store) \<and> email ex_local_user = ''ann@example.com''"
    by (simp_all add: us ex_profile_ann_def ex_oauth_user_def ex_local_user_def)
  have eve: "emails ex_profile_eve = ''eve@example.com'' # []"
    "(\<forall>x\<in>set (users ex_user_store).
        googleId x \<noteq> Some (profile_id ex_profile_eve) \<and> email x \<noteq> ''eve@example.com'') \<and>
     fresh_id ex_env \<notin> user_id ` set (users ex_user_store)"
    by (simp_all add: us ex_profile_eve_def ex_oauth_user_def ex_local_user_def ex_env_def)
  have A: "google_strategy ex_env ex_user_store ex_profile_bob =
     (Inr (ex_oauth_user\<lparr>email := ''rob@example.com'', user_name := ''Robert'',
                          avatar := Some ''http://img/new.png''\<rparr>),
      ex_user_store\<lparr>users :=
        [ex_local_user,
         ex_oauth_user\<lparr>email := ''rob@example.com'', user_name := ''Robert'',
                        avatar := Some ''http://img/new.png''\<rparr>]\<rparr>)"
    using oauth_resolution_order[OF c bob(1), of ex_oauth_user ex_env, THEN conjunct1, THEN mp, OF bob(2)]
      bob(3) ne
    by (simp add: us set_avatar_def first_photo_def ex_profile_bob_def)
  have B: "google_strategy ex_env ex_user_store ex_profile_ann =
     (Inr (ex_local_user\<lparr>googleId := Some ''g-ann'', user_name := ''Ann B'',
                          avatar := Some ''http://img/ann.png''\<rparr>),
      ex_user_store\<lparr>users :=
        [ex_local_user\<lparr>googleId := Some ''g-ann'', user_name := ''Ann B'',
                        avatar := Some ''http://img/ann.png''\<rparr>,
         ex_oauth_user]\<rparr>)"
    using oauth_resolution_order[OF c ann(1), of ex_local_user ex_env, THEN conjunct2, THEN conjunct1,
        THEN mp, OF ann(2), THEN conjunct1] ne
    by (simp add: us set_avatar_def first_photo_def ex_profile_ann_def)
  have C: "google_strategy ex_env ex_user_store ex_profile_eve =
     (Inr \<lparr>user_id = ''n1'', email = ''eve@example.com'', password = None,
           googleId = Some ''g-eve'', user_name = ''Eve'', avatar = None, user_createdAt = 1000\<rparr>,
      ex_user_store\<lparr>users :=
        [ex_local_user, ex_oauth_user,
         \<lparr>user_id = ''n1'', email = ''eve@example.com'', password = None,
          googleId = Some ''g-eve'', user_name = ''Eve'', avatar = None, user_createdAt = 1000\<rparr>]\<rparr>)"
    using oauth_resolution_order[OF c eve(1), of ex_local_user ex_env, THEN conjunct2, THEN conjunct2,
        THEN mp, OF eve(2)]
    by (simp add: us first_photo_def ex_profile_eve_def ex_env_def)
  have D: "password (ex_local_user\<lparr>googleId := Some ''g-ann'', user_name := ''Ann B'',
                            avatar := Some ''http://img/ann.png''\<rparr>) = Some ''hash:secret1''"
    by (simp add: ex_local_user_def)
  show ?thesis
    using c A B C D by (intro conjI)
qed

lemma register_then_google_links:
  "snd (register hash ex_env empty_store ''Ann@Example.com'' ''secret1'' None) =
     \<lparr>users = [\<lparr>user_id = ''n1'', email = ''ann@example.com'', password = Some (hash ''secret1''),
                 googleId = None, user_name = ''Ann'', avatar = None, user_createdAt = 1000\<rparr>],
      projects = [], tasks = []\<rparr> \<and>
   users (snd (google_strategy (ex_env\<lparr>fresh_id := ''n2''\<rparr>)
          (snd (register hash ex_env empty_store ''Ann@Example.com'' ''secret1'' None)) ex_profile_ann)) =
     [\<lparr>user_id = ''n1'', email = ''ann@example.com'', password = Some (hash ''secret1''),
       googleId = Some ''g-ann'', user_name = ''Ann B'', avatar = Some ''http://img/ann.png'',
       user_createdAt = 1000\<rparr>]"
proof -
  have r: "snd (register hash ex_env empty_store ''Ann@Example.com'' ''secret1'' None) =
     \<lparr>users = [\<lparr>user_id = ''n1'', email = ''ann@example.com'', password = Some (hash ''secret1''),
                 googleId = None, user_name = ''Ann'', avatar = None, user_createdAt = 1000\<rparr>],
      projects = [], tasks = []\<rparr>"
    by (simp add: register_def user_findUnique_def user_create_def user_constraints_def
        List.map_filter_simps empty_store_def ex_env_def ex_lower Let_def)
  show ?thesis
    unfolding r
    by (simp add: google_strategy_def user_findUnique_def user_update_def user_constraints_def
        List.map_filter_simps set_avatar_def first_photo_def ex_profile_ann_def Let_def)
qed

end
